theory Spec2Isabelle
  imports Main
begin

section \<open>Time values and calendar arithmetic of the JavaScript \<open>Date\<close> object\<close>

text \<open>
  \<open>parseDate\<close> in \<open>scripts/generate_ics.js\<close> builds its dates with \<open>new Date(y, m, d)\<close>,
  compares them, changes them with \<open>setFullYear\<close> and \<open>setDate\<close> and prints them with
  \<open>toISOString\<close>.  These built-ins are embedded here after the abstract operations of
  ECMAScript (section "Date Objects"): a time value is a number of milliseconds since
  1970-01-01T00:00:00Z, and \<open>NaN\<close> (here \<open>None\<close>) is the invalid date.  Years, months and
  days are mathematical integers; the doubles of the engine are exact on every value that
  passes \<open>TimeClip\<close>.

  Local time is UTC: the script is run by the workflow \<open>update_calendar.yml\<close> on a
  hosted \<open>ubuntu-latest\<close> runner, whose time zone is UTC, so \<open>LocalTZA\<close> is \<open>0\<close>.
\<close>

definition msPerDay :: int where
  "msPerDay = 86400000"

definition Day :: "int \<Rightarrow> int" where
  "Day t = t div msPerDay"

definition TimeWithinDay :: "int \<Rightarrow> int" where
  "TimeWithinDay t = t mod msPerDay"

definition DaysInYear :: "int \<Rightarrow> int" where
  "DaysInYear y =
     (if y mod 4 \<noteq> 0 then 365
      else if y mod 100 \<noteq> 0 then 366
      else if y mod 400 \<noteq> 0 then 365
      else 366)"

definition DayFromYear :: "int \<Rightarrow> int" where
  "DayFromYear y =
     365 * (y - 1970) + (y - 1969) div 4 - (y - 1901) div 100 + (y - 1601) div 400"

definition TimeFromYear :: "int \<Rightarrow> int" where
  "TimeFromYear y = msPerDay * DayFromYear y"

text \<open>
  ECMAScript specifies \<open>YearFromTime t\<close> as the largest \<open>y\<close> with
  \<open>TimeFromYear y \<le> t\<close>.  The executable form estimates the year from the mean length
  of a Gregorian year (146097 days in 400 years) and corrects the estimate by at most
  one; lemma \<open>YearFromTime_bounds\<close> below shows that it meets the specification.
\<close>

definition YearFromTime :: "int \<Rightarrow> int" where
  "YearFromTime t =
     (let d = Day t; y = 1970 + (400 * d) div 146097
      in if d < DayFromYear y then y - 1
         else if DayFromYear (y + 1) \<le> d then y + 1
         else y)"

definition InLeapYear :: "int \<Rightarrow> int" where
  "InLeapYear t = (if DaysInYear (YearFromTime t) = 366 then 1 else 0)"

definition DayWithinYear :: "int \<Rightarrow> int" where
  "DayWithinYear t = Day t - DayFromYear (YearFromTime t)"

definition MonthFromTime :: "int \<Rightarrow> int" where
  "MonthFromTime t =
     (let d = DayWithinYear t; l = InLeapYear t
      in if d < 31 then 0
         else if d < 59 + l then 1
         else if d < 90 + l then 2
         else if d < 120 + l then 3
         else if d < 151 + l then 4
         else if d < 181 + l then 5
         else if d < 212 + l then 6
         else if d < 243 + l then 7
         else if d < 273 + l then 8
         else if d < 304 + l then 9
         else if d < 334 + l then 10
         else 11)"

definition DateFromTime :: "int \<Rightarrow> int" where
  "DateFromTime t =
     (let d = DayWithinYear t; l = InLeapYear t; m = MonthFromTime t
      in if m = 0 then d + 1
         else if m = 1 then d - 30
         else if m = 2 then d - 58 - l
         else if m = 3 then d - 89 - l
         else if m = 4 then d - 119 - l
         else if m = 5 then d - 150 - l
         else if m = 6 then d - 180 - l
         else if m = 7 then d - 211 - l
         else if m = 8 then d - 242 - l
         else if m = 9 then d - 272 - l
         else if m = 10 then d - 303 - l
         else d - 333 - l)"

text \<open>
  \<open>MakeDay year month date\<close>: the day number of the first day of month
  \<open>month mod 12\<close> in year \<open>year + month div 12\<close>, plus \<open>date - 1\<close>.  Nothing bounds
  \<open>date\<close>: a day beyond the end of the month counts on into the following months.
\<close>

definition DayOfMonthStart :: "int \<Rightarrow> int \<Rightarrow> int" where
  "DayOfMonthStart l mn =
     (if mn = 0 then 0
      else if mn = 1 then 31
      else if mn = 2 then 59 + l
      else if mn = 3 then 90 + l
      else if mn = 4 then 120 + l
      else if mn = 5 then 151 + l
      else if mn = 6 then 181 + l
      else if mn = 7 then 212 + l
      else if mn = 8 then 243 + l
      else if mn = 9 then 273 + l
      else if mn = 10 then 304 + l
      else 334 + l)"

definition MakeDay :: "int \<Rightarrow> int \<Rightarrow> int \<Rightarrow> int" where
  "MakeDay year month date =
     (let ym = year + month div 12;
          mn = month mod 12;
          l = (if DaysInYear ym = 366 then 1 else 0)
      in DayFromYear ym + DayOfMonthStart l mn + date - 1)"

definition MakeDate :: "int \<Rightarrow> int \<Rightarrow> int" where
  "MakeDate day time = day * msPerDay + time"

definition TimeClip :: "int \<Rightarrow> int option" where
  "TimeClip t = (if \<bar>t\<bar> > 8640000000000000 then None else Some t)"

definition LocalTZA :: int where
  "LocalTZA = 0"

definition LocalTime :: "int \<Rightarrow> int" where
  "LocalTime t = t + LocalTZA"

definition UTC :: "int \<Rightarrow> int" where
  "UTC t = t - LocalTZA"


subsection \<open>Date objects\<close>

text \<open>
  A \<open>Date\<close> object holds a time value or \<open>NaN\<close>; \<open>None\<close> is \<open>NaN\<close>, the invalid date.
  The mutating methods \<open>setFullYear\<close> and \<open>setDate\<close> return the new content of the
  object.  A month that is \<open>NaN\<close> (the lookup of a key missing from \<open>monthMap\<close>, minus
  one) makes the date invalid.
\<close>

type_synonym date = "int option"

datatype js_error = RangeError

text \<open>
  \<open>new Date(year, monthIndex, day)\<close>: a year from 0 to 99 stands for 1900 + year; hours,
  minutes, seconds and milliseconds are 0.
\<close>

definition Date_new :: "int \<Rightarrow> int option \<Rightarrow> int \<Rightarrow> date" where
  "Date_new year monthIndex day =
     (case monthIndex of
        None \<Rightarrow> None
      | Some m \<Rightarrow>
          (let yr = (if 0 \<le> year \<and> year \<le> 99 then 1900 + year else year);
               finalDate = MakeDate (MakeDay yr m day) 0
           in TimeClip (UTC finalDate)))"

text \<open>\<open>a < b\<close> on two dates compares the time values; a comparison with \<open>NaN\<close> is false.\<close>

definition date_less :: "date \<Rightarrow> date \<Rightarrow> bool" where
  "date_less a b =
     (case a of None \<Rightarrow> False
      | Some x \<Rightarrow> (case b of None \<Rightarrow> False | Some y \<Rightarrow> x < y))"

definition getFullYear :: "date \<Rightarrow> int option" where
  "getFullYear d = (case d of None \<Rightarrow> None | Some t \<Rightarrow> Some (YearFromTime (LocalTime t)))"

definition getDate :: "date \<Rightarrow> int option" where
  "getDate d = (case d of None \<Rightarrow> None | Some t \<Rightarrow> Some (DateFromTime (LocalTime t)))"

text \<open>\<open>setFullYear(y)\<close> with one argument keeps the month and the day of the month; an
  invalid date counts as time value 0.\<close>

definition setFullYear :: "date \<Rightarrow> int \<Rightarrow> date" where
  "setFullYear d y =
     (let t = (case d of None \<Rightarrow> 0 | Some tv \<Rightarrow> LocalTime tv);
          newDate = MakeDay y (MonthFromTime t) (DateFromTime t)
      in TimeClip (UTC (MakeDate newDate (TimeWithinDay t))))"

text \<open>\<open>setDate(dt)\<close>: an invalid date stays invalid, and so does one set to \<open>NaN\<close>.\<close>

definition setDate :: "date \<Rightarrow> int option \<Rightarrow> date" where
  "setDate d dt =
     (case d of
        None \<Rightarrow> None
      | Some tv \<Rightarrow>
          (case dt of
             None \<Rightarrow> None
           | Some n \<Rightarrow>
               (let t = LocalTime tv;
                    newDate = MakeDate (MakeDay (YearFromTime t) (MonthFromTime t) n)
                                       (TimeWithinDay t)
                in TimeClip (UTC newDate))))"

subsection \<open>Decimal numerals and \<open>toISOString\<close>\<close>

definition digit_char :: "nat \<Rightarrow> char" where
  "digit_char n = char_of (48 + n mod 10)"

fun nat_to_string :: "nat \<Rightarrow> string" where
  "nat_to_string n =
     (if n < 10 then [digit_char n] else nat_to_string (n div 10) @ [digit_char n])"

declare nat_to_string.simps [simp del]

definition padStart0 :: "nat \<Rightarrow> string \<Rightarrow> string" where
  "padStart0 w s = replicate (w - length s) (CHR ''0'') @ s"

definition HourFromTime :: "int \<Rightarrow> int" where
  "HourFromTime t = (t div 3600000) mod 24"

definition MinFromTime :: "int \<Rightarrow> int" where
  "MinFromTime t = (t div 60000) mod 60"

definition SecFromTime :: "int \<Rightarrow> int" where
  "SecFromTime t = (t div 1000) mod 60"

definition msFromTime :: "int \<Rightarrow> int" where
  "msFromTime t = t mod 1000"

text \<open>
  The year of an ISO string has four digits from 0 to 9999 and otherwise a sign and six
  digits.  \<open>toISOString\<close> throws a \<open>RangeError\<close> on an invalid date.
\<close>

definition iso_year :: "int \<Rightarrow> string" where
  "iso_year y =
     (if 0 \<le> y \<and> y \<le> 9999 then padStart0 4 (nat_to_string (nat y))
      else (if y < 0 then ''-'' else ''+'') @ padStart0 6 (nat_to_string (nat \<bar>y\<bar>)))"

definition toISOString :: "date \<Rightarrow> js_error + string" where
  "toISOString d =
     (case d of
        None \<Rightarrow> Inl RangeError
      | Some t \<Rightarrow>
          Inr (iso_year (YearFromTime t) @ ''-''
               @ padStart0 2 (nat_to_string (nat (MonthFromTime t + 1))) @ ''-''
               @ padStart0 2 (nat_to_string (nat (DateFromTime t))) @ ''T''
               @ padStart0 2 (nat_to_string (nat (HourFromTime t))) @ '':''
               @ padStart0 2 (nat_to_string (nat (MinFromTime t))) @ '':''
               @ padStart0 2 (nat_to_string (nat (SecFromTime t))) @ ''.''
               @ padStart0 3 (nat_to_string (nat (msFromTime t))) @ ''Z''))"


section \<open>Strings and the regular expressions of \<open>parseDate\<close>\<close>

text \<open>
  A string is a list of characters, each a code unit below 256.  \<open>\d\<close> is an ASCII digit,
  \<open>\w\<close> an ASCII letter, digit or underscore, and white space (for \<open>trim\<close>) is TAB, LF,
  VT, FF, CR, space and the no-break space.
\<close>

definition isDigit :: "char \<Rightarrow> bool" where
  "isDigit c = (48 \<le> (of_char c :: nat) \<and> (of_char c :: nat) \<le> 57)"

definition isWordChar :: "char \<Rightarrow> bool" where
  "isWordChar c =
     (let n = (of_char c :: nat)
      in (48 \<le> n \<and> n \<le> 57) \<or> (65 \<le> n \<and> n \<le> 90) \<or> n = 95 \<or> (97 \<le> n \<and> n \<le> 122))"

definition isWhiteSpace :: "char \<Rightarrow> bool" where
  "isWhiteSpace c =
     (let n = (of_char c :: nat) in (9 \<le> n \<and> n \<le> 13) \<or> n = 32 \<or> n = 160)"

definition toLowerCase_char :: "char \<Rightarrow> char" where
  "toLowerCase_char c =
     (let n = (of_char c :: nat)
      in if (65 \<le> n \<and> n \<le> 90) \<or> (192 \<le> n \<and> n \<le> 222 \<and> n \<noteq> 215)
         then char_of (n + 32) else c)"

definition toLowerCase :: "string \<Rightarrow> string" where
  "toLowerCase s = map toLowerCase_char s"

fun startsWith :: "string \<Rightarrow> string \<Rightarrow> bool" where
  "startsWith s [] = True"
| "startsWith [] (p # ps) = False"
| "startsWith (c # cs) (p # ps) = (c = p \<and> startsWith cs ps)"

fun includes_str :: "string \<Rightarrow> string \<Rightarrow> bool" where
  "includes_str [] pat = startsWith [] pat"
| "includes_str (c # cs) pat = (startsWith (c # cs) pat \<or> includes_str cs pat)"

text \<open>\<open>s.replace(pat, rep)\<close> with a string pattern replaces the first occurrence only.\<close>

fun replace_first :: "string \<Rightarrow> string \<Rightarrow> string \<Rightarrow> string" where
  "replace_first pat rep [] = (if pat = [] then rep else [])"
| "replace_first pat rep (c # cs) =
     (if startsWith (c # cs) pat then rep @ drop (length pat) (c # cs)
      else c # replace_first pat rep cs)"

text \<open>
  \<open>s.split(sep)\<close> for a non-empty separator cuts at the occurrences of \<open>sep\<close> found from
  left to right without overlap.  \<open>split_from sep skip acc s\<close> walks over \<open>s\<close>; \<open>skip\<close>
  counts the characters of a separator still to be passed over, \<open>acc\<close> is the current
  part, reversed.
\<close>

fun split_from :: "string \<Rightarrow> nat \<Rightarrow> string \<Rightarrow> string \<Rightarrow> string list" where
  "split_from sep skip acc [] = [rev acc]"
| "split_from sep skip acc (c # cs) =
     (if 0 < skip then split_from sep (skip - 1) acc cs
      else if startsWith (c # cs) sep then rev acc # split_from sep (length sep - 1) [] cs
      else split_from sep 0 (c # acc) cs)"

definition split :: "string \<Rightarrow> string \<Rightarrow> string list" where
  "split s sep = split_from sep 0 [] s"

definition trim :: "string \<Rightarrow> string" where
  "trim s = rev (dropWhile isWhiteSpace (rev (dropWhile isWhiteSpace s)))"

text \<open>
  \<open>s.replace(/(\d+)(st|nd|rd|th)/g, "$1")\<close>.  A match is a run of digits up to its end
  followed by one of the four suffixes (a shorter run of digits is followed by a digit,
  never by a suffix), and the replacement drops the suffix.  The scan carries whether
  the preceding character is a digit; after a match it resumes behind the suffix.
\<close>

definition isOrdinalSuffix :: "char \<Rightarrow> char \<Rightarrow> bool" where
  "isOrdinalSuffix a b = ([a, b] \<in> set [''st'', ''nd'', ''rd'', ''th''])"

fun strip_ordinals :: "bool \<Rightarrow> string \<Rightarrow> string" where
  "strip_ordinals prevDigit (a # b # cs) =
     (if prevDigit \<and> isOrdinalSuffix a b then strip_ordinals False cs
      else a # strip_ordinals (isDigit a) (b # cs))"
| "strip_ordinals prevDigit cs = cs"

definition replace_ordinals :: "string \<Rightarrow> string" where
  "replace_ordinals s = strip_ordinals False s"

text \<open>
  \<open>s.match(/\b(\d{4})\b/)\<close>: the first four digits that have no word character before
  them and none after them; \<open>prev\<close> is the character before the current position.
\<close>

fun match_year_from :: "char option \<Rightarrow> string \<Rightarrow> string option" where
  "match_year_from prev [] = None"
| "match_year_from prev (c # cs) =
     (if (case prev of None \<Rightarrow> True | Some p \<Rightarrow> \<not> isWordChar p)
         \<and> 4 \<le> length (c # cs) \<and> list_all isDigit (take 4 (c # cs))
         \<and> (case drop 4 (c # cs) of [] \<Rightarrow> True | n # _ \<Rightarrow> \<not> isWordChar n)
      then Some (take 4 (c # cs))
      else match_year_from (Some c) cs)"

definition match_year :: "string \<Rightarrow> string option" where
  "match_year s = match_year_from None s"

text \<open>\<open>s.match(/(\d+)/)\<close>: the first run of digits, taken to its end.\<close>

definition match_digits :: "string \<Rightarrow> string option" where
  "match_digits s =
     (let r = dropWhile (\<lambda>c. \<not> isDigit c) s
      in if r = [] then None else Some (takeWhile isDigit r))"

text \<open>\<open>parseInt\<close> of a string of digits.\<close>

definition parseInt :: "string \<Rightarrow> int" where
  "parseInt ds = int (foldl (\<lambda>a c. 10 * a + ((of_char c :: nat) - 48)) 0 ds)"


section \<open>\<open>parseDate\<close>\<close>

text \<open>
  The result object \<open>{ startDate, endDate }\<close>; \<open>None\<close> is \<open>null\<close>.  The fields carry
  the names of the source, so the local variables \<open>startDate\<close> and \<open>endDate\<close> of
  \<open>parseDate\<close> are written \<open>startD\<close> and \<open>endD\<close> below.
\<close>

record parsed =
  startDate :: "string option"
  endDate :: "string option"

text \<open>\<open>monthMap\<close>, with its keys in insertion order, as \<open>Object.keys\<close> lists them.\<close>

definition monthMap :: "(string \<times> int) list" where
  "monthMap =
     [(''january'', 1), (''february'', 2), (''march'', 3), (''april'', 4), (''may'', 5),
      (''june'', 6), (''july'', 7), (''august'', 8), (''september'', 9), (''october'', 10),
      (''november'', 11), (''december'', 12)]"

definition monthKeys :: "string list" where
  "monthKeys = map fst monthMap"

definition monthNumber :: "string \<Rightarrow> int option" where
  "monthNumber m = map_of monthMap m"

text \<open>
  The loop over the month names of the range branch has no \<open>break\<close>: every name that
  occurs in a part overwrites the month found before.
\<close>

fun months_of_parts ::
  "string list \<Rightarrow> string \<Rightarrow> string \<Rightarrow> string option \<times> string option
     \<Rightarrow> string option \<times> string option" where
  "months_of_parts [] startPart endPart found = found"
| "months_of_parts (month # ms) startPart endPart (startMonth, endMonth) =
     months_of_parts ms startPart endPart
       (if includes_str (toLowerCase startPart) month then Some month else startMonth,
        if includes_str (toLowerCase endPart) month then Some month else endMonth)"

text \<open>The loops over the whole string stop at the first name that occurs.\<close>

fun first_month :: "string list \<Rightarrow> string \<Rightarrow> string option" where
  "first_month [] s = None"
| "first_month (m # ms) s =
     (if includes_str (toLowerCase s) m then Some m else first_month ms s)"

text \<open>\<open>d.toISOString().split('T')[0]\<close>\<close>

definition iso_date :: "date \<Rightarrow> js_error + string option" where
  "iso_date d =
     (case toISOString d of
        Inl e \<Rightarrow> Inl e
      | Inr s \<Rightarrow> Inr (case split s ''T'' of [] \<Rightarrow> None | p # _ \<Rightarrow> Some p))"

text \<open>\<open>d.setDate(d.getDate() + 1)\<close>\<close>

definition add_one_day :: "date \<Rightarrow> date" where
  "add_one_day d = setDate d (map_option (\<lambda>n. n + 1) (getDate d))"

text \<open>\<open>monthMap[endMonth] < monthMap[startMonth]\<close>; a comparison with \<open>undefined\<close> is false.\<close>

definition month_less :: "string \<Rightarrow> string \<Rightarrow> bool" where
  "month_less endMonth startMonth =
     (case monthNumber endMonth of
        None \<Rightarrow> False
      | Some e \<Rightarrow> (case monthNumber startMonth of None \<Rightarrow> False | Some s \<Rightarrow> e < s))"

definition month_index :: "string \<Rightarrow> int option" where
  "month_index m = map_option (\<lambda>n. n - 1) (monthNumber m)"

text \<open>The end date after the year-rollover test of the range branch.\<close>

definition rollover :: "int \<Rightarrow> string \<Rightarrow> string \<Rightarrow> date \<Rightarrow> date \<Rightarrow> date" where
  "rollover year startMonth endMonth startD endD =
     (if date_less endD startD \<and> month_less endMonth startMonth
      then setFullYear endD (year + 1)
      else endD)"

definition range_result ::
  "int \<Rightarrow> string \<Rightarrow> string \<Rightarrow> string \<Rightarrow> string \<Rightarrow> js_error + parsed" where
  "range_result year startMonth endMonth startDayMatch endDayMatch =
     (let startD = Date_new year (month_index startMonth) (parseInt startDayMatch);
          endD = Date_new year (month_index endMonth) (parseInt endDayMatch);
          endD' = rollover year startMonth endMonth startD endD
      in case iso_date startD of
           Inl e \<Rightarrow> Inl e
         | Inr startISO \<Rightarrow>
             (case iso_date (add_one_day endD') of
                Inl e \<Rightarrow> Inl e
              | Inr endISO \<Rightarrow> Inr \<lparr>startDate = startISO, endDate = endISO\<rparr>))"

definition single_result :: "int \<Rightarrow> string \<Rightarrow> string \<Rightarrow> js_error + parsed" where
  "single_result year month dayMatch =
     (let date = Date_new year (month_index month) (parseInt dayMatch)
      in case iso_date date of
           Inl e \<Rightarrow> Inl e
         | Inr startISO \<Rightarrow>
             (case iso_date (add_one_day date) of
                Inl e \<Rightarrow> Inl e
              | Inr endISO \<Rightarrow> Inr \<lparr>startDate = startISO, endDate = endISO\<rparr>))"

definition unresolved :: parsed where
  "unresolved = \<lparr>startDate = None, endDate = None\<rparr>"

text \<open>
  The months of a range: the loop over the two parts, then the whole string for a start
  part without a month, then the start month for an end part without one.
\<close>

definition range_months :: "string \<Rightarrow> string \<Rightarrow> string \<Rightarrow> string option \<times> string option" where
  "range_months dateStr startPart endPart =
     (case months_of_parts monthKeys startPart endPart (None, None) of
        (startMonth0, endMonth0) \<Rightarrow>
          (let startMonth = (case startMonth0 of
                               None \<Rightarrow> first_month monthKeys dateStr
                             | Some m \<Rightarrow> Some m);
               endMonth = (case endMonth0 of None \<Rightarrow> startMonth | Some m \<Rightarrow> Some m)
           in (startMonth, endMonth)))"

text \<open>The range branch: the phrase contains \<open>" - "\<close> or \<open>" to "\<close>.\<close>

definition parse_range :: "int \<Rightarrow> string \<Rightarrow> js_error + parsed" where
  "parse_range year dateStr =
     (let separator = (if includes_str dateStr '' - '' then '' - '' else '' to '');
          parts = split dateStr separator
      in case parts of
           [p0, p1] \<Rightarrow>
             (let startPart = trim p0;
                  endPart = trim p1
              in case range_months dateStr startPart endPart of
                   (startMonth, endMonth) \<Rightarrow>
                     (case (match_digits startPart, match_digits endPart,
                            startMonth, endMonth) of
                        (Some startDayMatch, Some endDayMatch, Some sm, Some em) \<Rightarrow>
                           range_result year sm em startDayMatch endDayMatch
                      | _ \<Rightarrow> Inr unresolved))
         | _ \<Rightarrow> Inr unresolved)"

text \<open>The single-date branch.\<close>

definition parse_single :: "int \<Rightarrow> string \<Rightarrow> js_error + parsed" where
  "parse_single year dateStr =
     (case (match_digits dateStr, first_month monthKeys dateStr) of
        (Some dayMatch, Some month) \<Rightarrow> single_result year month dayMatch
      | _ \<Rightarrow> Inr unresolved)"

text \<open>
  \<open>parseDate(dateStr, year)\<close>.  \<open>yearArg\<close> is the second argument, \<open>None\<close> when the caller
  leaves it out; only then is the default \<open>new Date().getFullYear()\<close> evaluated, on the
  current time \<open>now\<close>.
\<close>

definition parseDate :: "int \<Rightarrow> string \<Rightarrow> int option \<Rightarrow> js_error + parsed" where
  "parseDate now dateStr0 yearArg =
     (let year0 = (case yearArg of None \<Rightarrow> YearFromTime (LocalTime now) | Some y \<Rightarrow> y);
          dateStr1 = replace_ordinals dateStr0
      in if includes_str (toLowerCase dateStr1) ''not announced yet'' then Inr unresolved
         else
           (let yearMatch = match_year dateStr1;
                year = (case yearMatch of None \<Rightarrow> year0 | Some y \<Rightarrow> parseInt y);
                dateStr = (case yearMatch of
                             None \<Rightarrow> dateStr1
                           | Some y \<Rightarrow>
                               replace_first ('', '' @ nat_to_string (nat (parseInt y))) []
                                 dateStr1)
            in if includes_str dateStr '' - '' \<or> includes_str dateStr '' to ''
               then parse_range year dateStr
               else parse_single year dateStr))"


section \<open>\<open>main\<close>\<close>

subsection \<open>The regular expressions of \<open>main\<close>\<close>

text \<open>
  The patterns of \<open>main\<close> are sequences of literals, lazy \<open>.*?\<close>, greedy \<open>\s*\<close> and
  digits.  \<open>rx_match\<close> is the backtracking matcher on such a sequence, anchored at the
  start of its input: a lazy \<open>.*?\<close> first tries to match nothing and takes one more
  character (any but a line terminator) each time the rest of the pattern fails; a
  greedy \<open>\s*\<close> takes white space first and gives it back when the rest fails.  The
  result is the list of the texts matched by the \<open>.*?\<close> and \<open>\d\<close> items, in order, and
  the input left behind the match.  \<open>LitNoCase\<close> is a literal of lower-case ASCII under
  the flag \<open>i\<close>.
\<close>

datatype rx_item = Lit string | LitNoCase string | LazyAny | Spaces | Digit

definition isLineTerminator :: "char \<Rightarrow> bool" where
  "isLineTerminator c = ((of_char c :: nat) = 10 \<or> (of_char c :: nat) = 13)"

fun rx_match :: "rx_item list \<Rightarrow> string \<Rightarrow> string \<Rightarrow> (string list \<times> string) option" where
  "rx_match [] acc s = Some ([], s)"
| "rx_match (Lit l # its) acc s =
     (if startsWith s l then rx_match its [] (drop (length l) s) else None)"
| "rx_match (LitNoCase l # its) acc s =
     (if length l \<le> length s \<and> toLowerCase (take (length l) s) = l
      then rx_match its [] (drop (length l) s) else None)"
| "rx_match (Digit # its) acc [] = None"
| "rx_match (Digit # its) acc (c # cs) =
     (if isDigit c
      then (case rx_match its [] cs of
              None \<Rightarrow> None
            | Some (caps, rest) \<Rightarrow> Some ([c] # caps, rest))
      else None)"
| "rx_match (Spaces # its) acc [] = rx_match its [] []"
| "rx_match (Spaces # its) acc (c # cs) =
     (if isWhiteSpace c
      then (case rx_match (Spaces # its) [] cs of
              None \<Rightarrow> rx_match its [] (c # cs)
            | Some r \<Rightarrow> Some r)
      else rx_match its [] (c # cs))"
| "rx_match (LazyAny # its) acc s =
     (case rx_match its [] s of
        Some (caps, rest) \<Rightarrow> Some (rev acc # caps, rest)
      | None \<Rightarrow>
          (case s of
             [] \<Rightarrow> None
           | c # cs \<Rightarrow>
               if isLineTerminator c then None else rx_match (LazyAny # its) (c # acc) cs))"

text \<open>The items that yield a group of the result.\<close>

fun captures :: "rx_item \<Rightarrow> bool" where
  "captures LazyAny = True"
| "captures Digit = True"
| "captures _ = False"

text \<open>\<open>s.match(re)\<close> without the flag \<open>g\<close>: the match at the leftmost position.\<close>

fun rx_search :: "rx_item list \<Rightarrow> string \<Rightarrow> (string list \<times> string) option" where
  "rx_search items [] = rx_match items [] []"
| "rx_search items (c # cs) =
     (case rx_match items [] (c # cs) of
        Some r \<Rightarrow> Some r
      | None \<Rightarrow> rx_search items cs)"

text \<open>
  The loop \<open>while ((m = re.exec(s)) !== null)\<close> on a pattern with the flag \<open>g\<close>: each
  search starts where the match before ended.  \<open>skip\<close> counts the characters of the
  last match still to be passed over.  (Every match of \<open>eventPattern\<close> has at least the
  three characters of its first literal.)
\<close>

fun rx_exec_all :: "rx_item list \<Rightarrow> nat \<Rightarrow> string \<Rightarrow> string list list" where
  "rx_exec_all items skip [] =
     (if 0 < skip then []
      else (case rx_match items [] [] of None \<Rightarrow> [] | Some (caps, rest) \<Rightarrow> [caps]))"
| "rx_exec_all items skip (c # cs) =
     (if 0 < skip then rx_exec_all items (skip - 1) cs
      else (case rx_match items [] (c # cs) of
              None \<Rightarrow> rx_exec_all items 0 cs
            | Some (caps, rest) \<Rightarrow>
                caps # rx_exec_all items (length (c # cs) - length rest - 1) cs))"

text \<open>\<open>/open source events.*?(20\d{2})/i\<close>\<close>

definition headerYearPattern :: "rx_item list" where
  "headerYearPattern = [LitNoCase ''open source events'', LazyAny, Lit ''20'', Digit, Digit]"

text \<open>\<open>/\b20\d{2}\b/\<close>\<close>

fun match_20xx_from :: "char option \<Rightarrow> string \<Rightarrow> string option" where
  "match_20xx_from prev [] = None"
| "match_20xx_from prev (c # cs) =
     (if (case prev of None \<Rightarrow> True | Some p \<Rightarrow> \<not> isWordChar p)
         \<and> 4 \<le> length (c # cs) \<and> take 2 (c # cs) = ''20''
         \<and> list_all isDigit (take 2 (drop 2 (c # cs)))
         \<and> (case drop 4 (c # cs) of [] \<Rightarrow> True | n # _ \<Rightarrow> \<not> isWordChar n)
      then Some (take 4 (c # cs))
      else match_20xx_from (Some c) cs)"

text \<open>\<open>/- \[(.*?)\]\((.*?)\)\n\s*> Date: (.*?) \|\| Mode: (.*?) \|\| Location: (.*?)\./g\<close>\<close>

definition eventPattern :: "rx_item list" where
  "eventPattern =
     [Lit ''- ['', LazyAny, Lit '']('', LazyAny, Lit [CHR '')'', CHR 0x0A], Spaces,
      Lit ''> Date: '', LazyAny, Lit '' || Mode: '', LazyAny, Lit '' || Location: '',
      LazyAny, Lit ''.'']"

subsection \<open>Events and effects\<close>

text \<open>
  An element of \<open>events\<close>.  The object of the source also has the fields \<open>startDate\<close>
  and \<open>endDate\<close>, with the values of \<open>start_date\<close> and \<open>end_date\<close>.
\<close>

record event =
  name :: string
  url :: string
  start_date :: string
  end_date :: string
  mode :: string
  location :: string
  original_date :: string

text \<open>
  What a run does to the outside: lines on the console and files written.  A written
  file is recorded with its name and the array \<open>events\<close> its content is made from;
  the sorting and the serialisation (\<open>JSON.stringify\<close>, \<open>generateICS\<close>) are not
  modelled, and \<open>writeFileSync\<close> is taken to succeed.
\<close>

datatype effect =
    ConsoleLog string
  | ConsoleWarn string
  | ConsoleError string
  | WriteFile string "event list"

definition int_to_string :: "int \<Rightarrow> string" where
  "int_to_string n = (if n < 0 then ''-'' @ nat_to_string (nat (- n)) else nat_to_string (nat n))"

text \<open>The message of the \<open>RangeError\<close> that \<open>toISOString\<close> throws.\<close>

definition error_message :: "js_error \<Rightarrow> string" where
  "error_message e = (case e of RangeError \<Rightarrow> ''Invalid time value'')"

text \<open>
  One turn of the extraction loop, on the groups \<open>[name, url, date, mode, location]\<close>
  of a match of \<open>eventPattern\<close> (the pattern has five groups; a list of another
  length does not occur and changes nothing).  The state is \<open>events\<close>, the console
  output so far, \<open>successCount\<close> and \<open>failCount\<close>.  An exception thrown by
  \<open>parseDate\<close> is returned with the state reached.  In \<open>if (startDate && endDate)\<close>
  both \<open>null\<close> and the empty string are falsy.
\<close>

type_synonym loop_state = "event list \<times> effect list \<times> nat \<times> nat"

definition process_entry ::
  "int \<Rightarrow> int \<Rightarrow> string list \<Rightarrow> loop_state \<Rightarrow> js_error option \<times> loop_state" where
  "process_entry now year m st =
     (case st of (events, out, successCount, failCount) \<Rightarrow>
        (case m of
           [nm, u, date, md, loc] \<Rightarrow>
             (let skipped =
                    (None,
                     (events,
                      out @ [ConsoleWarn (''Unable to parse date '' @ [CHR 0x27] @ date
                               @ [CHR 0x27] @ '' for event '' @ [CHR 0x27] @ nm
                               @ [CHR 0x27] @ ''. Skipping...'')],
                      successCount, failCount + 1))
              in case parseDate now date (Some year) of
                   Inl e \<Rightarrow> (Some e, st)
                 | Inr r \<Rightarrow>
                     (case (startDate r, endDate r) of
                        (Some sd, Some ed) \<Rightarrow>
                          if sd \<noteq> [] \<and> ed \<noteq> []
                          then (None,
                                (events @ [\<lparr>name = nm, url = u, start_date = sd,
                                             end_date = ed, mode = md, location = loc,
                                             original_date = date\<rparr>],
                                 out, successCount + 1, failCount))
                          else skipped
                      | _ \<Rightarrow> skipped))
         | _ \<Rightarrow> (None, st)))"

text \<open>The loop over the matches, in order; it ends at the first exception.\<close>

fun process_matches ::
  "int \<Rightarrow> int \<Rightarrow> string list list \<Rightarrow> loop_state \<Rightarrow> js_error option \<times> loop_state" where
  "process_matches now year [] st = (None, st)"
| "process_matches now year (m # ms) st =
     (case process_entry now year m st of
        (Some e, st') \<Rightarrow> (Some e, st')
      | (None, st') \<Rightarrow> process_matches now year ms st')"

text \<open>
  The end of \<open>main\<close> after the loop: nothing is written when \<open>events\<close> is empty or an
  exception was thrown.  \<open>noEvents\<close> is the message of the empty run.
\<close>

definition finish_run :: "string \<Rightarrow> js_error option \<times> loop_state \<Rightarrow> effect list" where
  "finish_run noEvents res =
     (case res of (err, events, out, successCount, failCount) \<Rightarrow>
        (case err of
           Some e \<Rightarrow> out @ [ConsoleError (''Error occurred: '' @ error_message e)]
         | None \<Rightarrow>
             if length events = 0 then out @ [ConsoleError noEvents]
             else out @
               [WriteFile ''events.json'' events,
                WriteFile ''events.ics'' events,
                ConsoleLog (''Successfully parsed '' @ nat_to_string successCount
                            @ '' events ('' @ nat_to_string failCount @ '' skipped)''),
                ConsoleLog ''JSON and ICS files generated successfully!'']))"

text \<open>
  The year detection of \<open>main\<close>: the year of the heading, else the first \<open>20xx\<close> of the
  document, else the current year; with the line it logs.
\<close>

definition detect_year :: "int \<Rightarrow> string \<Rightarrow> int \<times> effect list" where
  "detect_year currentYear markdownText =
     (case rx_search headerYearPattern markdownText of
        Some (caps, rest) \<Rightarrow>
          (let detectedYear = parseInt (''20'' @ concat (drop 1 caps))
           in (detectedYear,
               [ConsoleLog (''Detected event year from heading: ''
                            @ int_to_string detectedYear)]))
      | None \<Rightarrow>
          (case match_20xx_from None markdownText of
             Some y \<Rightarrow>
               (let detectedYear = parseInt y
                in (detectedYear,
                    [ConsoleLog (''Detected event year from content: ''
                                 @ int_to_string detectedYear)]))
           | None \<Rightarrow>
               (currentYear,
                [ConsoleLog (''No year detected; defaulting to current year: ''
                             @ int_to_string currentYear)])))"

text \<open>
  \<open>main\<close> of \<open>scripts/generate_ics.js\<close>.  \<open>now\<close> is the current time and \<open>fetched\<close> the
  outcome of \<open>fetchContent(README_URL)\<close>: the text, or the message of the error it
  rejects with.  The result is what the run prints and writes, in order.
\<close>

definition main :: "int \<Rightarrow> string + string \<Rightarrow> effect list" where
  "main now fetched =
     (let currentYear = YearFromTime (LocalTime now)
      in case fetched of
           Inl message \<Rightarrow> [ConsoleError (''Error occurred: '' @ message)]
         | Inr markdownText \<Rightarrow>
             (case detect_year currentYear markdownText of
                (detectedYear, logged) \<Rightarrow>
                  finish_run ''No events were successfully parsed. Check date formats.''
                    (process_matches now detectedYear
                       (rx_exec_all eventPattern 0 markdownText) ([], logged, 0, 0))))"

text \<open>
  The second copy of the script has no year detection: its \<open>main\<close> passes the current
  year to \<open>parseDate\<close>.
\<close>

definition main_currentYear :: "int \<Rightarrow> string + string \<Rightarrow> effect list" where
  "main_currentYear now fetched =
     (let currentYear = YearFromTime (LocalTime now)
      in case fetched of
           Inl message \<Rightarrow> [ConsoleError (''Error occurred: '' @ message)]
         | Inr markdownText \<Rightarrow>
             finish_run
               ''No events were successfully parsed. Check the date formats and errors above.''
               (process_matches now currentYear
                  (rx_exec_all eventPattern 0 markdownText) ([], [], 0, 0)))"

definition files_written :: "effect list \<Rightarrow> string list" where
  "files_written effs = concat (map (\<lambda>e. case e of WriteFile f _ \<Rightarrow> [f] | _ \<Rightarrow> []) effs)"


section \<open>Notions used in the properties\<close>

text \<open>The calendar date of a time value in ISO form, \<open>YYYY-MM-DD\<close>.\<close>

definition iso_day :: "int \<Rightarrow> string" where
  "iso_day t =
     iso_year (YearFromTime t) @ ''-''
     @ padStart0 2 (nat_to_string (nat (MonthFromTime t + 1))) @ ''-''
     @ padStart0 2 (nat_to_string (nat (DateFromTime t)))"

text \<open>
  The end date \<open>e'\<close> lies in the calendar year after the year of the end date \<open>e\<close>;
  both dates are valid.
\<close>

definition year_advanced_by_one :: "date \<Rightarrow> date \<Rightarrow> bool" where
  "year_advanced_by_one e e' =
     (case e of
        None \<Rightarrow> False
      | Some t \<Rightarrow>
          (case e' of None \<Rightarrow> False | Some t' \<Rightarrow> YearFromTime t' = YearFromTime t + 1))"

text \<open>
  The year and the text that \<open>parseDate\<close> goes on with, for a phrase that is not
  "not announced yet": the four-digit token of the phrase or else the year given (or
  the current year), and the phrase without its ordinal suffixes and without the text
  \<open>", <year>"\<close>.
\<close>

definition resolved_year :: "int \<Rightarrow> int option \<Rightarrow> string \<Rightarrow> int" where
  "resolved_year now yearArg phrase =
     (case match_year (replace_ordinals phrase) of
        None \<Rightarrow> (case yearArg of None \<Rightarrow> YearFromTime (LocalTime now) | Some y \<Rightarrow> y)
      | Some y \<Rightarrow> parseInt y)"

definition resolved_text :: "string \<Rightarrow> string" where
  "resolved_text phrase =
     (case match_year (replace_ordinals phrase) of
        None \<Rightarrow> replace_ordinals phrase
      | Some y \<Rightarrow>
          replace_first ('', '' @ nat_to_string (nat (parseInt y))) []
            (replace_ordinals phrase))"

text \<open>The year that \<open>new Date(year, m, d)\<close> counts from.\<close>

definition full_year :: "int \<Rightarrow> int" where
  "full_year year = (if 0 \<le> year \<and> year \<le> 99 then 1900 + year else year)"

text \<open>The number of days of the month with index \<open>mi\<close> (0 to 11) in year \<open>y\<close>.\<close>

definition month_length :: "int \<Rightarrow> int \<Rightarrow> int" where
  "month_length y mi =
     (if mi = 1 then (if DaysInYear y = 366 then 29 else 28)
      else if mi = 3 \<or> mi = 5 \<or> mi = 8 \<or> mi = 10 then 30
      else 31)"

text \<open>
  No match of \<open>eventPattern\<close> in the list \<open>ms\<close> resolves: \<open>parseDate\<close> returns the pair
  \<open>(null, null)\<close> on the date of each.
\<close>

definition no_event_resolves :: "int \<Rightarrow> int \<Rightarrow> string list list \<Rightarrow> bool" where
  "no_event_resolves now year ms =
     list_all (\<lambda>m. case m of
                   [nm, u, date, md, loc] \<Rightarrow> parseDate now date (Some year) = Inr unresolved
                 | _ \<Rightarrow> True) ms"

text \<open>A document with two entries, neither of which has a date that resolves.\<close>

definition doc_unannounced :: string where
  "doc_unannounced =
     ''# Open Source Events 2025'' @ [CHR 0x0A]
     @ ''- [FOSSASIA Summit](https://summit.fossasia.org)'' @ [CHR 0x0A]
     @ ''  > Date: Not announced yet || Mode: In-person || Location: Bangkok.'' @ [CHR 0x0A]
     @ ''- [Some Conf](https://example.org)'' @ [CHR 0x0A]
     @ ''  > Date: Spring || Mode: Online || Location: Web.'' @ [CHR 0x0A]"

section \<open>Calendar arithmetic\<close>

text \<open>
  \<open>YearFromTime\<close> meets its specification; a date made from a year, a month and a day of
  the month is read back unchanged; and \<open>setDate(getDate() + 1)\<close> moves a date by exactly
  one day.
\<close>

lemma div_bounds:
  fixes x k :: int
  assumes "0 < k"
  shows "k * (x div k) \<le> x" and "x < k * (x div k) + k"
proof -
  have "x = k * (x div k) + x mod k" by simp
  moreover have "0 \<le> x mod k" "x mod k < k" using assms by simp_all
  ultimately show "k * (x div k) \<le> x" and "x < k * (x div k) + k" by linarith+
qed

lemma DayFromYear_lower: "146097 * y - 287811596 \<le> 400 * DayFromYear y"
proof -
  define a where "a = (y - 1969) div 4"
  define b where "b = (y - 1901) div 100"
  define c where "c = (y - 1601) div 400"
  have a: "y - 1969 < 4 * a + 4" unfolding a_def by (rule div_bounds) simp
  have b: "100 * b \<le> y - 1901" unfolding b_def by (rule div_bounds) simp
  have c: "y - 1601 < 400 * c + 400" unfolding c_def by (rule div_bounds) simp
  have "DayFromYear y = 365 * y - 719050 + a - b + c"
    unfolding DayFromYear_def a_def b_def c_def by simp
  then show ?thesis using a b c by linarith
qed

lemma DayFromYear_upper: "400 * DayFromYear y \<le> 146097 * y - 287810501"
proof -
  define a where "a = (y - 1969) div 4"
  define b where "b = (y - 1901) div 100"
  define c where "c = (y - 1601) div 400"
  have a: "4 * a \<le> y - 1969" unfolding a_def by (rule div_bounds) simp
  have b: "y - 1901 < 100 * b + 100" unfolding b_def by (rule div_bounds) simp
  have c: "400 * c \<le> y - 1601" unfolding c_def by (rule div_bounds) simp
  have "DayFromYear y = 365 * y - 719050 + a - b + c"
    unfolding DayFromYear_def a_def b_def c_def by simp
  then show ?thesis using a b c by linarith
qed

lemma YearFromTime_bounds:
  "DayFromYear (YearFromTime t) \<le> Day t \<and> Day t < DayFromYear (YearFromTime t + 1)"
proof -
  define d where "d = Day t"
  define q where "q = (400 * d) div 146097"
  define y where "y = 1970 + q"
  have q1: "146097 * q \<le> 400 * d" unfolding q_def by (rule div_bounds) simp
  have q2: "400 * d < 146097 * q + 146097" unfolding q_def by (rule div_bounds) simp
  have yq: "146097 * y = 287811090 + 146097 * q" by (simp add: y_def)
  have "400 * DayFromYear (y - 1) \<le> 146097 * (y - 1) - 287810501"
    by (rule DayFromYear_upper)
  then have "400 * DayFromYear (y - 1) \<le> 146097 * y - 287956598"
    by (simp add: algebra_simps)
  then have lo: "DayFromYear (y - 1) \<le> d"
    using q1 yq by linarith
  have "146097 * (y + 2) - 287811596 \<le> 400 * DayFromYear (y + 2)"
    by (rule DayFromYear_lower)
  then have "146097 * y - 287519402 \<le> 400 * DayFromYear (y + 2)"
    by (simp add: algebra_simps)
  then have hi: "d < DayFromYear (y + 2)"
    using q2 yq by linarith
  have e: "y - 1 + 1 = y" "y + 1 + 1 = y + 2" by simp_all
  have Y: "YearFromTime t = (if d < DayFromYear y then y - 1
         else if DayFromYear (y + 1) \<le> d then y + 1 else y)"
    unfolding YearFromTime_def Let_def d_def q_def y_def by simp
  show ?thesis
  proof (cases "d < DayFromYear y")
    case True
    then show ?thesis using lo Y e unfolding d_def[symmetric] by simp
  next
    case False
    have hi': "d < DayFromYear (2 + y)" using hi by (simp add: add.commute)
    from False show ?thesis
      using hi' Y e unfolding d_def[symmetric] by (cases "DayFromYear (y + 1) \<le> d") simp_all
  qed
qed

lemma div_step:
  fixes a k :: int
  assumes "0 < k"
  shows "(a + 1) div k = (if (a + 1) mod k = 0 then a div k + 1 else a div k)"
proof -
  define q where "q = a div k"
  define r where "r = a mod k"
  have a: "a = k * q + r" and r: "0 \<le> r" "r < k"
    using assms by (simp_all add: q_def r_def)
  show ?thesis
  proof (cases "r = k - 1")
    case True
    then have e: "a + 1 = k * (q + 1) + 0" using a by (simp add: algebra_simps)
    have z: "(0::int) \<le> 0" "0 < k" using assms by simp_all
    have "(a + 1) div k = q + 1" using int_div_pos_eq[OF e z] .
    moreover have "(a + 1) mod k = 0" using int_mod_pos_eq[OF e z] .
    ultimately show ?thesis by (simp add: q_def)
  next
    case False
    then have r1: "0 \<le> r + 1" "r + 1 < k" using r by simp_all
    have e: "a + 1 = k * q + (r + 1)" using a by simp
    have "(a + 1) div k = q" using int_div_pos_eq[OF e r1] .
    moreover have "(a + 1) mod k = r + 1" using int_mod_pos_eq[OF e r1] .
    ultimately show ?thesis using r by (simp add: q_def)
  qed
qed

lemma mod_shift:
  fixes y k c :: int
  shows "(y - k * c) mod k = y mod k"
proof -
  have "(y - k * c) mod k = (y + k * (- c)) mod k" by simp
  also have "\<dots> = y mod k" by (rule mod_mult_self2)
  finally show ?thesis .
qed

lemma mod_100_4: "(y::int) mod 100 = 0 \<Longrightarrow> y mod 4 = 0"
proof -
  assume h: "y mod 100 = 0"
  have "(4::int) dvd 100" by simp
  then have "y mod 100 mod 4 = y mod 4" by (rule mod_mod_cancel)
  with h show ?thesis by simp
qed

lemma mod_400_100: "(y::int) mod 400 = 0 \<Longrightarrow> y mod 100 = 0"
proof -
  assume h: "y mod 400 = 0"
  have "(100::int) dvd 400" by simp
  then have "y mod 400 mod 100 = y mod 100" by (rule mod_mod_cancel)
  with h show ?thesis by simp
qed

lemma DayFromYear_Suc: "DayFromYear (y + 1) = DayFromYear y + DaysInYear y"
proof -
  have m4: "(y - 1969 + 1) mod 4 = y mod 4"
    using mod_shift[of y 4 492] by simp
  have m100: "(y - 1901 + 1) mod 100 = y mod 100"
    using mod_shift[of y 100 19] by simp
  have m400: "(y - 1601 + 1) mod 400 = y mod 400"
    using mod_shift[of y 400 4] by simp
  have a: "(y + 1 - 1969) div 4 = (if y mod 4 = 0 then (y - 1969) div 4 + 1 else (y - 1969) div 4)"
    using div_step[of 4 "y - 1969"] m4 by (simp add: algebra_simps)
  have b: "(y + 1 - 1901) div 100 = (if y mod 100 = 0 then (y - 1901) div 100 + 1 else (y - 1901) div 100)"
    using div_step[of 100 "y - 1901"] m100 by (simp add: algebra_simps)
  have c: "(y + 1 - 1601) div 400 = (if y mod 400 = 0 then (y - 1601) div 400 + 1 else (y - 1601) div 400)"
    using div_step[of 400 "y - 1601"] m400 by (simp add: algebra_simps)
  show ?thesis
    unfolding DayFromYear_def DaysInYear_def a b c
    using mod_100_4[of y] mod_400_100[of y] by auto
qed

lemma DaysInYear_cases: "DaysInYear y = 365 \<or> DaysInYear y = 366"
  by (simp add: DaysInYear_def)

lemma DayFromYear_less: "DayFromYear y < DayFromYear (y + 1)"
  using DaysInYear_cases[of y] by (auto simp: DayFromYear_Suc)

lemma DayFromYear_mono: "y \<le> z \<Longrightarrow> DayFromYear y \<le> DayFromYear z"
proof (induction z rule: int_ge_induct)
  case base
  show ?case by simp
next
  case (step i)
  then show ?case using DayFromYear_less[of i] by linarith
qed

lemma YearFromTime_unique:
  assumes "DayFromYear y \<le> Day t" and "Day t < DayFromYear (y + 1)"
  shows "YearFromTime t = y"
proof (rule ccontr)
  assume ne: "YearFromTime t \<noteq> y"
  have b: "DayFromYear (YearFromTime t) \<le> Day t" "Day t < DayFromYear (YearFromTime t + 1)"
    using YearFromTime_bounds[of t] by simp_all
  show False
  proof (cases "YearFromTime t < y")
    case True
    then have "DayFromYear (YearFromTime t + 1) \<le> DayFromYear y"
      by (intro DayFromYear_mono) simp
    with b assms show False by linarith
  next
    case False
    with ne have "DayFromYear (y + 1) \<le> DayFromYear (YearFromTime t)"
      by (intro DayFromYear_mono) simp
    with b assms show False by linarith
  qed
qed

text \<open>\<open>YearFromTime t\<close> is the largest year that starts at or before \<open>t\<close>.\<close>

lemma YearFromTime_largest: "TimeFromYear y \<le> t \<longleftrightarrow> y \<le> YearFromTime t"
proof -
  have "TimeFromYear y \<le> t \<longleftrightarrow> DayFromYear y \<le> Day t"
  proof
    assume h: "TimeFromYear y \<le> t"
    have "t < msPerDay * Day t + msPerDay"
      unfolding Day_def by (rule div_bounds) (simp add: msPerDay_def)
    with h have "msPerDay * DayFromYear y < msPerDay * (Day t + 1)"
      by (simp add: TimeFromYear_def algebra_simps)
    then have "DayFromYear y < Day t + 1" by (simp add: msPerDay_def)
    then show "DayFromYear y \<le> Day t" by simp
  next
    assume h: "DayFromYear y \<le> Day t"
    have "msPerDay * Day t \<le> t"
      unfolding Day_def by (rule div_bounds) (simp add: msPerDay_def)
    moreover from h have "msPerDay * DayFromYear y \<le> msPerDay * Day t"
      by (simp add: msPerDay_def)
    ultimately show "TimeFromYear y \<le> t" by (simp add: TimeFromYear_def)
  qed
  also have "\<dots> \<longleftrightarrow> y \<le> YearFromTime t"
  proof
    assume h: "DayFromYear y \<le> Day t"
    show "y \<le> YearFromTime t"
    proof (rule ccontr)
      assume "\<not> y \<le> YearFromTime t"
      then have "DayFromYear (YearFromTime t + 1) \<le> DayFromYear y"
        by (intro DayFromYear_mono) simp
      with h YearFromTime_bounds[of t] show False by linarith
    qed
  next
    assume "y \<le> YearFromTime t"
    then have "DayFromYear y \<le> DayFromYear (YearFromTime t)" by (rule DayFromYear_mono)
    with YearFromTime_bounds[of t] show "DayFromYear y \<le> Day t" by linarith
  qed
  finally show ?thesis .
qed

lemma DayWithinYear_bounds:
  "0 \<le> DayWithinYear t \<and> DayWithinYear t < DaysInYear (YearFromTime t)"
  using YearFromTime_bounds[of t]
  by (simp add: DayWithinYear_def DayFromYear_Suc)


lemma Day_MakeDate:
  assumes "0 \<le> r" and "r < msPerDay"
  shows "Day (MakeDate d r) = d" and "TimeWithinDay (MakeDate d r) = r"
proof -
  have e: "MakeDate d r = msPerDay * d + r" by (simp add: MakeDate_def)
  show "Day (MakeDate d r) = d"
    unfolding Day_def using int_div_pos_eq[OF e assms] .
  show "TimeWithinDay (MakeDate d r) = r"
    unfolding TimeWithinDay_def using int_mod_pos_eq[OF e assms] .
qed

lemma TimeWithinDay_bounds: "0 \<le> TimeWithinDay t \<and> TimeWithinDay t < msPerDay"
  by (simp add: TimeWithinDay_def msPerDay_def)

lemma MakeDate_Day: "MakeDate (Day t) (TimeWithinDay t) = t"
  by (simp add: MakeDate_def Day_def TimeWithinDay_def)

lemma MonthFromTime_range: "0 \<le> MonthFromTime t \<and> MonthFromTime t \<le> 11"
  by (simp add: MonthFromTime_def Let_def)

lemma DateFromTime_eq:
  "DateFromTime t = DayWithinYear t - DayOfMonthStart (InLeapYear t) (MonthFromTime t) + 1"
  by (simp add: DateFromTime_def DayOfMonthStart_def Let_def)

lemma MakeDay_month:
  assumes "0 \<le> m" and "m \<le> 11"
  shows "MakeDay y m dt =
    DayFromYear y + DayOfMonthStart (if DaysInYear y = 366 then 1 else 0) m + dt - 1"
proof -
  have "m div 12 = 0" "m mod 12 = m" using assms by simp_all
  then show ?thesis by (simp add: MakeDay_def Let_def)
qed

lemma MakeDay_roundtrip:
  "MakeDay (YearFromTime t) (MonthFromTime t) (DateFromTime t + k) = Day t + k"
proof -
  have "MakeDay (YearFromTime t) (MonthFromTime t) (DateFromTime t + k) =
      DayFromYear (YearFromTime t) + DayOfMonthStart (InLeapYear t) (MonthFromTime t)
        + (DateFromTime t + k) - 1"
    using MonthFromTime_range[of t] by (simp add: MakeDay_month InLeapYear_def)
  also have "\<dots> = Day t + k"
    by (simp add: DateFromTime_eq DayWithinYear_def)
  finally show ?thesis .
qed

lemma add_one_day_Some: "add_one_day (Some t) = TimeClip (t + msPerDay)"
proof -
  have "MakeDate (MakeDay (YearFromTime t) (MonthFromTime t) (DateFromTime t + 1))
          (TimeWithinDay t) = MakeDate (Day t + 1) (TimeWithinDay t)"
    by (simp only: MakeDay_roundtrip)
  also have "\<dots> = MakeDate (Day t) (TimeWithinDay t) + msPerDay"
    by (simp add: MakeDate_def algebra_simps)
  also have "\<dots> = t + msPerDay" by (simp only: MakeDate_Day)
  finally show ?thesis
    by (simp add: add_one_day_def setDate_def getDate_def LocalTime_def UTC_def LocalTZA_def
        Let_def)
qed

lemma DayOfMonthStart_bounds:
  assumes "l = 0 \<or> l = 1"
  shows "0 \<le> DayOfMonthStart l m \<and> DayOfMonthStart l m \<le> 334 + l"
  using assms by (auto simp: DayOfMonthStart_def)

lemma DaysInYear_leap: "DaysInYear y = 365 + (if DaysInYear y = 366 then 1 else 0)"
  using DaysInYear_cases[of y] by auto

lemma YearFromTime_MakeDay:
  assumes m: "0 \<le> m" "m \<le> 11" and dt: "1 \<le> dt" "dt \<le> 31"
    and r: "0 \<le> r" "r < msPerDay"
  shows "YearFromTime (MakeDate (MakeDay y m dt) r) = y"
proof (rule YearFromTime_unique)
  define l :: int where "l = (if DaysInYear y = 366 then 1 else 0)"
  have l: "l = 0 \<or> l = 1" by (simp add: l_def)
  have md: "MakeDay y m dt = DayFromYear y + DayOfMonthStart l m + dt - 1"
    using m by (simp add: MakeDay_month l_def)
  have diy: "DaysInYear y = 365 + l" unfolding l_def by (rule DaysInYear_leap)
  have D: "Day (MakeDate (MakeDay y m dt) r) = MakeDay y m dt"
    using r by (rule Day_MakeDate)
  show "DayFromYear y \<le> Day (MakeDate (MakeDay y m dt) r)"
    using D md DayOfMonthStart_bounds[OF l, of m] dt by linarith
  show "Day (MakeDate (MakeDay y m dt) r) < DayFromYear (y + 1)"
    using D md DayFromYear_Suc[of y] diy DayOfMonthStart_bounds[OF l, of m] dt by linarith
qed

lemma DateFromTime_range: "1 \<le> DateFromTime t \<and> DateFromTime t \<le> 31"
proof -
  define d where "d = DayWithinYear t"
  define l where "l = InLeapYear t"
  have l: "l = 0 \<or> l = 1" by (simp add: l_def InLeapYear_def)
  have "DaysInYear (YearFromTime t) = 365 + l"
    unfolding l_def InLeapYear_def by (rule DaysInYear_leap)
  then have d: "0 \<le> d" "d < 365 + l"
    using DayWithinYear_bounds[of t] by (simp_all add: d_def)
  show ?thesis
    unfolding DateFromTime_def MonthFromTime_def Let_def d_def[symmetric] l_def[symmetric]
    using d l by auto
qed

lemma setFullYear_year:
  assumes "setFullYear d y = Some t'"
  shows "YearFromTime t' = y"
proof -
  define t where "t = (case d of None \<Rightarrow> 0 | Some tv \<Rightarrow> LocalTime tv)"
  have "t' = MakeDate (MakeDay y (MonthFromTime t) (DateFromTime t)) (TimeWithinDay t)"
    using assms
    by (simp add: setFullYear_def Let_def t_def TimeClip_def UTC_def LocalTZA_def split: if_splits)
  then show ?thesis
    using YearFromTime_MakeDay[of "MonthFromTime t" "DateFromTime t" "TimeWithinDay t" y]
      MonthFromTime_range[of t] DateFromTime_range[of t] TimeWithinDay_bounds[of t]
    by simp
qed

text \<open>
  A day beyond the end of its month is the day of the following month that many days
  on; a date made from a day that its month has is read back as given; and the dates
  of the years from -271000 to 275000 are valid.
\<close>

lemma month_index_cases:
  fixes m :: int
  assumes "0 \<le> m" "m \<le> 11"
  shows "m = 0 \<or> m = 1 \<or> m = 2 \<or> m = 3 \<or> m = 4 \<or> m = 5 \<or> m = 6 \<or> m = 7 \<or> m = 8
         \<or> m = 9 \<or> m = 10 \<or> m = 11"
  using assms by presburger

lemma MakeDay_normalise: "MakeDay y m d = MakeDay (y + m div 12) (m mod 12) d"
  by (simp add: MakeDay_def Let_def)

lemma MakeDay_next_month:
  assumes "0 \<le> mi" "mi \<le> 11"
  shows "MakeDay y mi d = MakeDay y (mi + 1) (d - month_length y mi)"
proof (cases "mi = 11")
  case True
  have "MakeDay y 12 (d - 31) = DayFromYear (y + 1) + (d - 31) - 1"
    by (simp add: MakeDay_def Let_def DayOfMonthStart_def)
  moreover have "MakeDay y 11 d
      = DayFromYear y + (334 + (if DaysInYear y = 366 then 1 else 0)) + d - 1"
    by (simp add: MakeDay_month DayOfMonthStart_def)
  ultimately show ?thesis
    using True DaysInYear_leap[of y] by (simp add: DayFromYear_Suc month_length_def)
next
  case False
  with assms have b: "0 \<le> mi + 1" "mi + 1 \<le> 11" by simp_all
  from False month_index_cases[OF assms] show ?thesis
    unfolding MakeDay_month[OF assms] MakeDay_month[OF b]
    by (auto simp: DayOfMonthStart_def month_length_def)
qed


lemma month_length_bounds: "28 \<le> month_length y mi \<and> month_length y mi \<le> 31"
  by (simp add: month_length_def)

lemma MakeDay_bounds:
  assumes y: "- 271000 \<le> y" "y \<le> 275000" and m: "0 \<le> m" "m \<le> 11"
    and d: "0 \<le> d" "d \<le> 62"
  shows "- 99999998 \<le> MakeDay y m d \<and> MakeDay y m d \<le> 99999998"
proof -
  define l :: int where "l = (if DaysInYear y = 366 then 1 else 0)"
  have l: "l = 0 \<or> l = 1" by (simp add: l_def)
  have md: "MakeDay y m d = DayFromYear y + DayOfMonthStart l m + d - 1"
    using m by (simp add: MakeDay_month l_def)
  have s: "0 \<le> DayOfMonthStart l m" "DayOfMonthStart l m \<le> 335"
    using DayOfMonthStart_bounds[OF l, of m] l by auto
  have u: "146097 * y \<le> 40176675000" and lo: "- 39592287000 \<le> 146097 * y"
    using y by simp_all
  have "400 * DayFromYear y \<le> 39888864499"
    using DayFromYear_upper[of y] u by linarith
  then have U: "DayFromYear y \<le> 99722161" by linarith
  have "- 39880098596 \<le> 400 * DayFromYear y"
    using DayFromYear_lower[of y] lo by linarith
  then have L: "- 99700247 \<le> DayFromYear y" by linarith
  show ?thesis using md s U L d by linarith
qed

lemma TimeClip_day:
  assumes "- 99999999 \<le> n" "n \<le> 99999999"
  shows "TimeClip (MakeDate n 0) = Some (n * msPerDay)"
    and "TimeClip (n * msPerDay + msPerDay) = Some (n * msPerDay + msPerDay)"
  using assms by (simp_all add: TimeClip_def MakeDate_def msPerDay_def)


lemma MakeDay_read_back:
  assumes m: "0 \<le> m" "m \<le> 11" and d: "1 \<le> d" "d \<le> month_length y m"
    and r: "0 \<le> r" "r < msPerDay"
  shows "YearFromTime (MakeDate (MakeDay y m d) r) = y
       \<and> MonthFromTime (MakeDate (MakeDay y m d) r) = m
       \<and> DateFromTime (MakeDate (MakeDay y m d) r) = d"
proof -
  define t where "t = MakeDate (MakeDay y m d) r"
  define l :: int where "l = (if DaysInYear y = 366 then 1 else 0)"
  have d31: "d \<le> 31" using d month_length_bounds[of y m] by linarith
  have Y: "YearFromTime t = y"
    unfolding t_def using YearFromTime_MakeDay[OF m d(1) d31 r] .
  have D: "Day t = MakeDay y m d" unfolding t_def using r by (rule Day_MakeDate)
  have L: "InLeapYear t = l" by (simp add: InLeapYear_def Y l_def)
  have W: "DayWithinYear t = DayOfMonthStart l m + d - 1"
    by (simp add: DayWithinYear_def Y D MakeDay_month[OF m] l_def)
  have l: "l = 0 \<or> l = 1" by (simp add: l_def)
  have ml: "month_length y m = (if m = 1 then 28 + l
      else if m = 3 \<or> m = 5 \<or> m = 8 \<or> m = 10 then 30 else 31)"
    by (simp add: month_length_def l_def)
  have M: "MonthFromTime t = m"
    using month_index_cases[OF m] l d unfolding ml
    apply (elim disjE)
    apply (simp_all add: MonthFromTime_def Let_def W L DayOfMonthStart_def)
    done
  have "DateFromTime t = d"
    by (simp add: DateFromTime_eq W L M)
  with Y M show ?thesis unfolding t_def by simp
qed

lemma YearFromTime_mono: "t1 \<le> t2 \<Longrightarrow> YearFromTime t1 \<le> YearFromTime t2"
proof -
  assume h: "t1 \<le> t2"
  have "TimeFromYear (YearFromTime t1) \<le> t1"
    using YearFromTime_largest[of "YearFromTime t1" t1] by simp
  with h have "TimeFromYear (YearFromTime t1) \<le> t2" by linarith
  then show ?thesis using YearFromTime_largest[of "YearFromTime t1" t2] by simp
qed

section \<open>Strings, ISO dates and the two result blocks\<close>

text \<open>
  \<open>includes_str\<close> is the substring test; the date part of \<open>toISOString\<close> is \<open>iso_day\<close>;
  and a result of the single-date block or of the range block is the pair of the ISO
  dates of a constructed date and of the day after the last day.
\<close>

lemma startsWith_iff: "startsWith s p \<longleftrightarrow> (\<exists>post. s = p @ post)"
  by (induction s p rule: startsWith.induct) auto

lemma includes_str_iff: "includes_str s p \<longleftrightarrow> (\<exists>pre post. s = pre @ p @ post)"
proof (induction s)
  case Nil
  show ?case by (auto simp: startsWith_iff)
next
  case (Cons c cs)
  show ?case
  proof
    assume "includes_str (c # cs) p"
    then consider "startsWith (c # cs) p" | "includes_str cs p" by auto
    then show "\<exists>pre post. c # cs = pre @ p @ post"
    proof cases
      case 1
      then obtain post where "c # cs = p @ post" by (auto simp: startsWith_iff)
      then have "c # cs = [] @ p @ post" by simp
      then show ?thesis by blast
    next
      case 2
      then obtain pre post where "cs = pre @ p @ post" using Cons.IH by auto
      then have "c # cs = (c # pre) @ p @ post" by simp
      then show ?thesis by blast
    qed
  next
    assume "\<exists>pre post. c # cs = pre @ p @ post"
    then obtain pre post where e: "c # cs = pre @ p @ post" by blast
    show "includes_str (c # cs) p"
    proof (cases pre)
      case Nil
      with e have "startsWith (c # cs) p" by (auto simp: startsWith_iff)
      then show ?thesis by simp
    next
      case (Cons a pre')
      with e have "cs = pre' @ p @ post" by simp
      then have "includes_str cs p" using Cons.IH by blast
      then show ?thesis by simp
    qed
  qed
qed

lemma split_from_no_sep:
  "c \<notin> set a \<Longrightarrow> split_from [c] 0 acc (a @ c # b) = (rev acc @ a) # split_from [c] 0 [] b"
  by (induction a arbitrary: acc) auto

lemma digit_char_neq_T: "digit_char n \<noteq> CHR ''T''"
proof -
  have "n mod 10 < 10" by simp
  then have "48 + n mod 10 < 58" by simp
  then have "of_char (digit_char n) = (48 + n mod 10 :: nat)"
    by (simp add: digit_char_def)
  then show ?thesis by auto
qed

lemma nat_to_string_no_T: "CHR ''T'' \<notin> set (nat_to_string n)"
proof (induction n rule: nat_to_string.induct)
  case (1 n)
  then show ?case
    using digit_char_neq_T[of n] by (subst nat_to_string.simps) auto
qed

lemma padStart0_no_T: "CHR ''T'' \<notin> set (padStart0 w (nat_to_string n))"
  using nat_to_string_no_T[of n] by (auto simp: padStart0_def)

lemma iso_day_no_T: "CHR ''T'' \<notin> set (iso_day t)"
  using padStart0_no_T by (auto simp: iso_day_def iso_year_def)

lemma iso_date_Some: "iso_date (Some t) = Inr (Some (iso_day t))"
proof -
  obtain rest where "toISOString (Some t) = Inr (iso_day t @ CHR ''T'' # rest)"
    by (simp add: toISOString_def iso_day_def)
  then show ?thesis
    using split_from_no_sep[OF iso_day_no_T, of "[]" t]
    by (simp add: iso_date_def split_def)
qed

lemma iso_date_None: "iso_date None = Inl RangeError"
  by (simp add: iso_date_def toISOString_def)


lemma single_result_Some:
  assumes "Date_new year (month_index month) (parseInt dayMatch) = Some t"
  shows "single_result year month dayMatch =
    (case TimeClip (t + msPerDay) of
       None \<Rightarrow> Inl RangeError
     | Some t' \<Rightarrow> Inr \<lparr>startDate = Some (iso_day t), endDate = Some (iso_day t')\<rparr>)"
  using assms
  by (simp add: single_result_def Let_def iso_date_Some iso_date_None add_one_day_Some
      split: option.splits)

lemma single_result_None:
  assumes "Date_new year (month_index month) (parseInt dayMatch) = None"
  shows "single_result year month dayMatch = Inl RangeError"
  using assms by (simp add: single_result_def Let_def iso_date_None)

lemma single_result_Inr:
  assumes "single_result year month dayMatch = Inr r"
  shows "\<exists>t. Date_new year (month_index month) (parseInt dayMatch) = Some t
           \<and> r = \<lparr>startDate = Some (iso_day t), endDate = Some (iso_day (t + msPerDay))\<rparr>"
proof (cases "Date_new year (month_index month) (parseInt dayMatch)")
  case None
  with assms show ?thesis by (simp add: single_result_None)
next
  case (Some t)
  with assms show ?thesis
    by (auto simp: single_result_Some TimeClip_def split: if_splits)
qed

lemma add_one_day_None: "add_one_day None = None"
  by (simp add: add_one_day_def setDate_def)

lemma range_result_Inr:
  assumes "range_result year sm em sd ed = Inr r"
  shows "\<exists>s l. Date_new year (month_index sm) (parseInt sd) = Some s
           \<and> rollover year sm em (Some s) (Date_new year (month_index em) (parseInt ed)) = Some l
           \<and> r = \<lparr>startDate = Some (iso_day s), endDate = Some (iso_day (l + msPerDay))\<rparr>"
proof (cases "Date_new year (month_index sm) (parseInt sd)")
  case None
  with assms show ?thesis by (simp add: range_result_def Let_def iso_date_None)
next
  case (Some s)
  show ?thesis
  proof (cases "rollover year sm em (Some s) (Date_new year (month_index em) (parseInt ed))")
    case None
    with assms Some show ?thesis
      by (simp add: range_result_def Let_def iso_date_Some iso_date_None add_one_day_None)
  next
    case l: (Some l)
    with assms Some show ?thesis
      by (auto simp: range_result_def Let_def iso_date_Some iso_date_None add_one_day_Some
          TimeClip_def split: if_splits)
  qed
qed

lemma rollover_not_less:
  "\<not> date_less e s \<Longrightarrow> rollover year sm em s e = e"
  by (simp add: rollover_def)

text \<open>A date constructed in a year outside 0 to 99 from a day of 1 to 31 lies in that year.\<close>

lemma monthNumber_range: "monthNumber m = Some n \<Longrightarrow> 1 \<le> n \<and> n \<le> 12"
  by (auto simp: monthNumber_def monthMap_def split: if_splits)

lemma Date_new_year:
  assumes e: "Date_new year (month_index em) d = Some e"
    and y: "year < 0 \<or> 99 < year" and d: "1 \<le> d" "d \<le> 31"
  shows "YearFromTime e = year"
proof -
  from e obtain n where n: "monthNumber em = Some n"
    by (cases "monthNumber em") (auto simp: Date_new_def month_index_def)
  then have m: "0 \<le> n - 1" "n - 1 \<le> 11" using monthNumber_range[OF n] by simp_all
  from e n y have "e = MakeDate (MakeDay year (n - 1) d) 0"
    by (auto simp: Date_new_def month_index_def Let_def TimeClip_def UTC_def LocalTZA_def
        split: if_splits)
  then show ?thesis
    using YearFromTime_MakeDay[OF m d, of 0 year] by (simp add: msPerDay_def)
qed

text \<open>
  The two branches of \<open>parseDate\<close> in terms of the year and the text it goes on with,
  what each returns when it resolves, and the order of the two dates of a range.
\<close>

lemma parseDate_single_branch:
  assumes "\<not> includes_str (toLowerCase (replace_ordinals phrase)) ''not announced yet''"
    and "\<not> includes_str (resolved_text phrase) '' - ''"
    and "\<not> includes_str (resolved_text phrase) '' to ''"
  shows "parseDate now phrase yearArg
    = parse_single (resolved_year now yearArg phrase) (resolved_text phrase)"
  using assms
  by (simp add: parseDate_def resolved_text_def resolved_year_def Let_def split: option.splits)

lemma parseDate_range_branch:
  assumes "\<not> includes_str (toLowerCase (replace_ordinals phrase)) ''not announced yet''"
    and "includes_str (resolved_text phrase) '' - '' \<or> includes_str (resolved_text phrase) '' to ''"
  shows "parseDate now phrase yearArg
    = parse_range (resolved_year now yearArg phrase) (resolved_text phrase)"
  using assms
  by (auto simp: parseDate_def resolved_text_def resolved_year_def Let_def split: option.splits)

lemma Date_new_full_year:
  "Date_new year (Some mi) d = TimeClip (MakeDate (MakeDay (full_year year) mi d) 0)"
  by (simp add: Date_new_def full_year_def Let_def UTC_def LocalTZA_def)

lemma Date_new_year_le:
  assumes s: "Date_new year (month_index m) d = Some s"
    and y: "year < 0 \<or> 99 < year" and d: "d \<le> 31"
  shows "YearFromTime s \<le> year"
proof -
  from s obtain n where n: "monthNumber m = Some n"
    by (cases "monthNumber m") (auto simp: Date_new_def month_index_def)
  have mi: "0 \<le> n - 1" "n - 1 \<le> 11" using monthNumber_range[OF n] by simp_all
  define l :: int where "l = (if DaysInYear year = 366 then 1 else 0)"
  have l: "l = 0 \<or> l = 1" by (simp add: l_def)
  from s n y have se: "s = MakeDate (MakeDay year (n - 1) d) 0"
    by (auto simp: Date_new_def month_index_def Let_def TimeClip_def UTC_def LocalTZA_def
        split: if_splits)
  have z: "(0::int) \<le> 0" "0 < msPerDay" by (simp_all add: msPerDay_def)
  have D: "Day s = MakeDay year (n - 1) d" unfolding se using z by (rule Day_MakeDate)
  have md: "MakeDay year (n - 1) d = DayFromYear year + DayOfMonthStart l (n - 1) + d - 1"
    using mi by (simp add: MakeDay_month l_def)
  have diy: "DaysInYear year = 365 + l" unfolding l_def by (rule DaysInYear_leap)
  have lt: "Day s < DayFromYear (year + 1)"
    using D md DayFromYear_Suc[of year] diy DayOfMonthStart_bounds[OF l, of "n - 1"] d
    by linarith
  show ?thesis
  proof (rule ccontr)
    assume "\<not> YearFromTime s \<le> year"
    then have "DayFromYear (year + 1) \<le> DayFromYear (YearFromTime s)"
      by (intro DayFromYear_mono) simp
    with YearFromTime_bounds[of s] lt show False by linarith
  qed
qed

lemma parse_single_resolved:
  assumes "parse_single year dateStr = Inr r" and "r \<noteq> unresolved"
  shows "\<exists>dayMatch month t.
           match_digits dateStr = Some dayMatch
         \<and> first_month monthKeys dateStr = Some month
         \<and> Date_new year (month_index month) (parseInt dayMatch) = Some t
         \<and> r = \<lparr>startDate = Some (iso_day t), endDate = Some (iso_day (t + msPerDay))\<rparr>"
proof -
  from assms obtain dayMatch month where
    a: "match_digits dateStr = Some dayMatch" "first_month monthKeys dateStr = Some month"
       "single_result year month dayMatch = Inr r"
    by (auto simp: parse_single_def split: option.splits)
  from single_result_Inr[OF a(3)] a(1,2) show ?thesis by blast
qed

lemma parse_range_resolved:
  assumes "parse_range year dateStr = Inr r" and "r \<noteq> unresolved"
  shows "\<exists>p0 p1 sm em sd ed s l.
           split dateStr (if includes_str dateStr '' - '' then '' - '' else '' to '') = [p0, p1]
         \<and> range_months dateStr (trim p0) (trim p1) = (Some sm, Some em)
         \<and> match_digits (trim p0) = Some sd \<and> match_digits (trim p1) = Some ed
         \<and> Date_new year (month_index sm) (parseInt sd) = Some s
         \<and> rollover year sm em (Some s) (Date_new year (month_index em) (parseInt ed)) = Some l
         \<and> r = \<lparr>startDate = Some (iso_day s), endDate = Some (iso_day (l + msPerDay))\<rparr>"
proof -
  from assms obtain p0 p1 sm em sd ed where
    a: "split dateStr (if includes_str dateStr '' - '' then '' - '' else '' to '') = [p0, p1]"
       "range_months dateStr (trim p0) (trim p1) = (Some sm, Some em)"
       "match_digits (trim p0) = Some sd" "match_digits (trim p1) = Some ed"
       "range_result year sm em sd ed = Inr r"
    by (auto simp: parse_range_def Let_def split: list.splits option.splits prod.splits)
  from range_result_Inr[OF a(5)] a(1-4) show ?thesis by blast
qed

lemma rollover_order:
  assumes s: "Date_new year (month_index sm) (parseInt sd) = Some s"
    and l: "rollover year sm em (Some s) E = Some l"
  shows "(\<not> (date_less E (Some s) \<and> month_less em sm) \<longrightarrow> E = Some l)
       \<and> (\<not> date_less E (Some s) \<longrightarrow> s < l + msPerDay)
       \<and> (date_less E (Some s) \<and> month_less em sm \<and> (year < 0 \<or> 99 < year)
            \<and> parseInt sd \<le> 31 \<longrightarrow> s < l + msPerDay)"
proof (intro conjI impI)
  assume "\<not> (date_less E (Some s) \<and> month_less em sm)"
  with l show "E = Some l" by (auto simp: rollover_def)
next
  assume n: "\<not> date_less E (Some s)"
  with l have "E = Some l" by (simp add: rollover_not_less)
  with n have "\<not> l < s" by (simp add: date_less_def)
  then show "s < l + msPerDay" by (simp add: msPerDay_def)
next
  assume a: "date_less E (Some s) \<and> month_less em sm \<and> (year < 0 \<or> 99 < year)
            \<and> parseInt sd \<le> 31"
  with l have "setFullYear E (year + 1) = Some l" by (simp add: rollover_def)
  then have yl: "YearFromTime l = year + 1" by (rule setFullYear_year)
  have ys: "YearFromTime s \<le> year" using Date_new_year_le[OF s] a by blast
  have "s < l"
  proof (rule ccontr)
    assume "\<not> s < l"
    then have "YearFromTime l \<le> YearFromTime s" by (intro YearFromTime_mono) simp
    with yl ys show False by linarith
  qed
  then show "s < l + msPerDay" by (simp add: msPerDay_def)
qed

section \<open>The month searches\<close>

text \<open>
  The loop without \<open>break\<close> returns the last name of the list that occurs in the part,
  the loop with \<open>break\<close> the first.
\<close>

lemma months_of_parts_append:
  "months_of_parts (xs @ ys) sp ep acc = months_of_parts ys sp ep (months_of_parts xs sp ep acc)"
  by (induction xs arbitrary: acc) (auto simp: split_paired_all)

lemma months_of_parts_snoc:
  "months_of_parts (xs @ [k]) sp ep acc =
     (if includes_str (toLowerCase sp) k then Some k else fst (months_of_parts xs sp ep acc),
      if includes_str (toLowerCase ep) k then Some k else snd (months_of_parts xs sp ep acc))"
  by (cases "months_of_parts xs sp ep acc") (simp add: months_of_parts_append)



lemma months_of_parts_swap:
  "months_of_parts ks ep sp (b, a) = (snd (months_of_parts ks sp ep (a, b)), fst (months_of_parts ks sp ep (a, b)))"
  by (induction ks arbitrary: a b) auto

lemma months_of_parts_fst_last:
  "fst (months_of_parts ks sp ep (None, b)) = Some m \<longleftrightarrow>
     (\<exists>before after. ks = before @ m # after \<and> includes_str (toLowerCase sp) m
        \<and> (\<forall>m'\<in>set after. \<not> includes_str (toLowerCase sp) m'))"
proof (induction ks rule: rev_induct)
  case Nil
  show ?case by simp
next
  case (snoc k ks)
  show ?case
  proof (cases "includes_str (toLowerCase sp) k")
    case True
    have "(\<exists>before after. ks @ [k] = before @ m # after \<and> includes_str (toLowerCase sp) m
        \<and> (\<forall>m'\<in>set after. \<not> includes_str (toLowerCase sp) m')) \<longleftrightarrow> m = k"
    proof
      assume "\<exists>before after. ks @ [k] = before @ m # after \<and> includes_str (toLowerCase sp) m
        \<and> (\<forall>m'\<in>set after. \<not> includes_str (toLowerCase sp) m')"
      then obtain before after where e: "ks @ [k] = before @ m # after"
        and n: "\<forall>m'\<in>set after. \<not> includes_str (toLowerCase sp) m'" by blast
      show "m = k"
      proof (cases after rule: rev_cases)
        case Nil
        with e show ?thesis by simp
      next
        case (snoc as a)
        with e have "ks @ [k] = (before @ m # as) @ [a]" by simp
        then have "a = k" by (simp only: append1_eq_conv)
        with n snoc True show ?thesis by simp
      qed
    next
      assume "m = k"
      with True have "ks @ [k] = ks @ m # [] \<and> includes_str (toLowerCase sp) m
        \<and> (\<forall>m'\<in>set []. \<not> includes_str (toLowerCase sp) m')" by simp
      then show "\<exists>before after. ks @ [k] = before @ m # after \<and> includes_str (toLowerCase sp) m
        \<and> (\<forall>m'\<in>set after. \<not> includes_str (toLowerCase sp) m')" by blast
    qed
    with True show ?thesis by (auto simp: months_of_parts_snoc)
  next
    case False
    have "(\<exists>before after. ks @ [k] = before @ m # after \<and> includes_str (toLowerCase sp) m
        \<and> (\<forall>m'\<in>set after. \<not> includes_str (toLowerCase sp) m')) \<longleftrightarrow>
      (\<exists>before after. ks = before @ m # after \<and> includes_str (toLowerCase sp) m
        \<and> (\<forall>m'\<in>set after. \<not> includes_str (toLowerCase sp) m'))"
    proof
      assume "\<exists>before after. ks @ [k] = before @ m # after \<and> includes_str (toLowerCase sp) m
        \<and> (\<forall>m'\<in>set after. \<not> includes_str (toLowerCase sp) m')"
      then obtain before after where e: "ks @ [k] = before @ m # after"
        and i: "includes_str (toLowerCase sp) m"
        and n: "\<forall>m'\<in>set after. \<not> includes_str (toLowerCase sp) m'" by blast
      show "\<exists>before after. ks = before @ m # after \<and> includes_str (toLowerCase sp) m
        \<and> (\<forall>m'\<in>set after. \<not> includes_str (toLowerCase sp) m')"
      proof (cases after rule: rev_cases)
        case Nil
        with e have "m = k" by simp
        with i False show ?thesis by simp
      next
        case (snoc as a)
        with e have "ks @ [k] = (before @ m # as) @ [a]" by simp
        then have "ks = before @ m # as" by (simp only: append1_eq_conv)
        with i n snoc show ?thesis by auto
      qed
    next
      assume "\<exists>before after. ks = before @ m # after \<and> includes_str (toLowerCase sp) m
        \<and> (\<forall>m'\<in>set after. \<not> includes_str (toLowerCase sp) m')"
      then obtain before after where e: "ks = before @ m # after"
        and i: "includes_str (toLowerCase sp) m"
        and n: "\<forall>m'\<in>set after. \<not> includes_str (toLowerCase sp) m'" by blast
      from e have "ks @ [k] = before @ m # (after @ [k])" by simp
      moreover from n False have "\<forall>m'\<in>set (after @ [k]). \<not> includes_str (toLowerCase sp) m'"
        by simp
      ultimately show "\<exists>before after. ks @ [k] = before @ m # after
        \<and> includes_str (toLowerCase sp) m
        \<and> (\<forall>m'\<in>set after. \<not> includes_str (toLowerCase sp) m')"
        using i by blast
    qed
    with False snoc.IH show ?thesis by (simp add: months_of_parts_snoc)
  qed
qed

lemma months_of_parts_snd_last:
  "snd (months_of_parts ks sp ep (a, None)) = Some m \<longleftrightarrow>
     (\<exists>before after. ks = before @ m # after \<and> includes_str (toLowerCase ep) m
        \<and> (\<forall>m'\<in>set after. \<not> includes_str (toLowerCase ep) m'))"
  using months_of_parts_fst_last[of ks ep sp a m] by (simp add: months_of_parts_swap[of ks ep sp])

lemma first_month_first:
  "first_month ks s = Some m \<longleftrightarrow>
     (\<exists>before after. ks = before @ m # after \<and> includes_str (toLowerCase s) m
        \<and> (\<forall>m'\<in>set before. \<not> includes_str (toLowerCase s) m'))"
proof (induction ks)
  case Nil
  show ?case by simp
next
  case (Cons k ks)
  show ?case
  proof (cases "includes_str (toLowerCase s) k")
    case True
    have "(\<exists>before after. k # ks = before @ m # after \<and> includes_str (toLowerCase s) m
        \<and> (\<forall>m'\<in>set before. \<not> includes_str (toLowerCase s) m')) \<longleftrightarrow> m = k"
    proof
      assume "\<exists>before after. k # ks = before @ m # after \<and> includes_str (toLowerCase s) m
        \<and> (\<forall>m'\<in>set before. \<not> includes_str (toLowerCase s) m')"
      then obtain before after where e: "k # ks = before @ m # after"
        and n: "\<forall>m'\<in>set before. \<not> includes_str (toLowerCase s) m'" by blast
      show "m = k"
      proof (cases before)
        case Nil
        with e show ?thesis by simp
      next
        case (Cons b bs)
        with e have "b = k" by simp
        with n Cons True show ?thesis by simp
      qed
    next
      assume "m = k"
      with True have "k # ks = [] @ m # ks \<and> includes_str (toLowerCase s) m
        \<and> (\<forall>m'\<in>set []. \<not> includes_str (toLowerCase s) m')" by simp
      then show "\<exists>before after. k # ks = before @ m # after \<and> includes_str (toLowerCase s) m
        \<and> (\<forall>m'\<in>set before. \<not> includes_str (toLowerCase s) m')" by blast
    qed
    with True show ?thesis by auto
  next
    case False
    have "(\<exists>before after. k # ks = before @ m # after \<and> includes_str (toLowerCase s) m
        \<and> (\<forall>m'\<in>set before. \<not> includes_str (toLowerCase s) m')) \<longleftrightarrow>
      (\<exists>before after. ks = before @ m # after \<and> includes_str (toLowerCase s) m
        \<and> (\<forall>m'\<in>set before. \<not> includes_str (toLowerCase s) m'))"
    proof
      assume "\<exists>before after. k # ks = before @ m # after \<and> includes_str (toLowerCase s) m
        \<and> (\<forall>m'\<in>set before. \<not> includes_str (toLowerCase s) m')"
      then obtain before after where e: "k # ks = before @ m # after"
        and i: "includes_str (toLowerCase s) m"
        and n: "\<forall>m'\<in>set before. \<not> includes_str (toLowerCase s) m'" by blast
      show "\<exists>before after. ks = before @ m # after \<and> includes_str (toLowerCase s) m
        \<and> (\<forall>m'\<in>set before. \<not> includes_str (toLowerCase s) m')"
      proof (cases before)
        case Nil
        with e have "m = k" by simp
        with i False show ?thesis by simp
      next
        case (Cons b bs)
        with e have "ks = bs @ m # after" by simp
        with i n Cons show ?thesis by auto
      qed
    next
      assume "\<exists>before after. ks = before @ m # after \<and> includes_str (toLowerCase s) m
        \<and> (\<forall>m'\<in>set before. \<not> includes_str (toLowerCase s) m')"
      then obtain before after where e: "ks = before @ m # after"
        and i: "includes_str (toLowerCase s) m"
        and n: "\<forall>m'\<in>set before. \<not> includes_str (toLowerCase s) m'" by blast
      from e have "k # ks = (k # before) @ m # after" by simp
      moreover from n False have "\<forall>m'\<in>set (k # before). \<not> includes_str (toLowerCase s) m'"
        by simp
      ultimately show "\<exists>before after. k # ks = before @ m # after
        \<and> includes_str (toLowerCase s) m
        \<and> (\<forall>m'\<in>set before. \<not> includes_str (toLowerCase s) m')"
        using i by blast
    qed
    with False Cons.IH show ?thesis by simp
  qed
qed

section \<open>The extraction loop on entries that do not resolve\<close>

text \<open>
  A match of a pattern has one group for each capturing item, so every match of
  \<open>eventPattern\<close> has the five groups that the loop takes apart.
\<close>

lemma rx_match_captures:
  "rx_match items acc s = Some (caps, rest) \<Longrightarrow> length caps = length (filter captures items)"
proof (induction items acc s arbitrary: caps rest rule: rx_match.induct)
  case (1 acc s)
  then show ?case by simp
next
  case (2 l its acc s)
  then show ?case by (auto split: if_splits)
next
  case (3 l its acc s)
  then show ?case by (auto split: if_splits)
next
  case (4 its acc)
  then show ?case by simp
next
  case (5 its acc c cs)
  then show ?case by (auto split: if_splits option.splits)
next
  case (6 its acc)
  then show ?case by simp
next
  case (7 its acc c cs)
  then show ?case by (auto split: if_splits option.splits)
next
  case (8 its acc s)
  show ?case
  proof (cases "rx_match its [] s")
    case (Some r)
    obtain caps' rest' where r: "r = (caps', rest')" by (cases r)
    with Some 8 show ?thesis by auto
  next
    case None
    with 8 show ?thesis by (cases s) (auto split: if_splits)
  qed
qed

lemma rx_exec_all_captures:
  "m \<in> set (rx_exec_all items skip s) \<Longrightarrow> length m = length (filter captures items)"
proof (induction s arbitrary: skip)
  case Nil
  then show ?case
    by (auto split: if_splits option.splits dest: rx_match_captures rx_match_captures[OF sym])
next
  case (Cons c cs)
  then show ?case
    by (auto split: if_splits option.splits dest: rx_match_captures rx_match_captures[OF sym])
qed

lemma eventPattern_groups:
  "m \<in> set (rx_exec_all eventPattern skip s) \<Longrightarrow> \<exists>nm u date md loc. m = [nm, u, date, md, loc]"
proof -
  assume "m \<in> set (rx_exec_all eventPattern skip s)"
  then have "length m = 5"
    using rx_exec_all_captures[of m eventPattern skip s] by (simp add: eventPattern_def)
  then show ?thesis
    by (auto simp: length_Suc_conv eval_nat_numeral)
qed

lemma files_written_append: "files_written (a @ b) = files_written a @ files_written b"
  by (simp add: files_written_def)

lemma files_written_warns: "files_written (map ConsoleWarn ws) = []"
  by (induction ws) (simp_all add: files_written_def)

lemma files_written_detect_year: "files_written (snd (detect_year y s)) = []"
  by (simp add: detect_year_def files_written_def Let_def split: option.splits prod.splits)

lemma process_entry_unresolved:
  assumes "case m of [nm, u, date, md, loc] \<Rightarrow> parseDate now date (Some year) = Inr unresolved
           | _ \<Rightarrow> True"
  shows "\<exists>ws fc'. process_entry now year m (events, out, sc, fc)
           = (None, (events, out @ map ConsoleWarn ws, sc, fc'))"
proof (cases "\<exists>nm u date md loc. m = [nm, u, date, md, loc]")
  case True
  then obtain nm u date md loc where m: "m = [nm, u, date, md, loc]" by blast
  with assms have "parseDate now date (Some year) = Inr unresolved" by simp
  then have "process_entry now year m (events, out, sc, fc)
      = (None, (events, out @ map ConsoleWarn
           [''Unable to parse date '' @ [CHR 0x27] @ date @ [CHR 0x27] @ '' for event ''
            @ [CHR 0x27] @ nm @ [CHR 0x27] @ ''. Skipping...''], sc, fc + 1))"
    by (simp add: process_entry_def m unresolved_def Let_def)
  then show ?thesis by blast
next
  case False
  then have "process_entry now year m (events, out, sc, fc) = (None, (events, out, sc, fc))"
    by (auto simp: process_entry_def split: list.splits)
  then have "process_entry now year m (events, out, sc, fc)
      = (None, (events, out @ map ConsoleWarn [], sc, fc))" by simp
  then show ?thesis by blast
qed

lemma process_matches_unresolved:
  assumes "no_event_resolves now year ms"
  shows "\<exists>ws fc'. process_matches now year ms (events, out, sc, fc)
           = (None, (events, out @ map ConsoleWarn ws, sc, fc'))"
  using assms
proof (induction ms arbitrary: out fc)
  case Nil
  have "process_matches now year [] (events, out, sc, fc)
      = (None, (events, out @ map ConsoleWarn [], sc, fc))" by simp
  then show ?case by blast
next
  case (Cons m ms)
  from Cons.prems have hm: "case m of [nm, u, date, md, loc] \<Rightarrow>
        parseDate now date (Some year) = Inr unresolved | _ \<Rightarrow> True"
    and hms: "no_event_resolves now year ms"
    by (simp_all add: no_event_resolves_def)
  from process_entry_unresolved[OF hm, of events out sc fc] obtain ws1 fc1 where
    e: "process_entry now year m (events, out, sc, fc)
          = (None, (events, out @ map ConsoleWarn ws1, sc, fc1))" by blast
  from Cons.IH[OF hms, of "out @ map ConsoleWarn ws1" fc1] obtain ws2 fc2 where
    r: "process_matches now year ms (events, out @ map ConsoleWarn ws1, sc, fc1)
          = (None, (events, (out @ map ConsoleWarn ws1) @ map ConsoleWarn ws2, sc, fc2))"
    by blast
  have "process_matches now year (m # ms) (events, out, sc, fc)
      = (None, (events, out @ map ConsoleWarn (ws1 @ ws2), sc, fc2))"
    using e r by simp
  then show ?case by blast
qed

lemma finish_run_empty:
  assumes "files_written out = []"
  shows "files_written (finish_run msg (None, ([], out @ map ConsoleWarn ws, sc, fc))) = []
       \<and> last (finish_run msg (None, ([], out @ map ConsoleWarn ws, sc, fc))) = ConsoleError msg"
  using assms
  by (simp add: finish_run_def files_written_append files_written_warns)
     (simp add: files_written_def)

section \<open>Properties of \<open>parseDate\<close> and \<open>main\<close>\<close>

subsection \<open>C1: the year rollover of a range\<close>

text \<open>
  C1, as amended.  \<open>"28 December - 2 January"\<close> with context year 2025 resolves to start
  \<open>2025-12-28\<close> and end \<open>2026-01-03\<close>.  A phrase of the range branch that splits in two
  parts with both days and both months resolved is answered by the range block.  And
  for every range with both days and both months resolved on which the range block
  returns a result, whose year is not one of
  0 to 99 and whose end day number is from 1 to 31: the end date after the rollover
  test lies in the calendar year after the year of the constructed end date if and
  only if the constructed end date is before the constructed start date and the number
  of the end month is strictly smaller than the number of the start month; otherwise
  the end date is left as constructed.
\<close>

theorem rollover_advances_year_iff:
  "parseDate now ''28 December - 2 January'' (Some 2025)
     = Inr \<lparr>startDate = Some ''2025-12-28'', endDate = Some ''2026-01-03''\<rparr>
   \<and> (split dateStr (if includes_str dateStr '' - '' then '' - '' else '' to '') = [p0, p1]
        \<and> range_months dateStr (trim p0) (trim p1) = (Some sm, Some em)
        \<and> match_digits (trim p0) = Some sd \<and> match_digits (trim p1) = Some ed
      \<longrightarrow> parse_range year dateStr = range_result year sm em sd ed)
   \<and> (range_result year sm em sd ed = Inr r
        \<and> (year < 0 \<or> 99 < year) \<and> 1 \<le> parseInt ed \<and> parseInt ed \<le> 31
      \<longrightarrow> (year_advanced_by_one
             (Date_new year (month_index em) (parseInt ed))
             (rollover year sm em (Date_new year (month_index sm) (parseInt sd))
                (Date_new year (month_index em) (parseInt ed)))
           \<longleftrightarrow> date_less (Date_new year (month_index em) (parseInt ed))
                  (Date_new year (month_index sm) (parseInt sd))
               \<and> month_less em sm)
        \<and> (year_advanced_by_one
             (Date_new year (month_index em) (parseInt ed))
             (rollover year sm em (Date_new year (month_index sm) (parseInt sd))
                (Date_new year (month_index em) (parseInt ed)))
           \<or> rollover year sm em (Date_new year (month_index sm) (parseInt sd))
                (Date_new year (month_index em) (parseInt ed))
               = Date_new year (month_index em) (parseInt ed)))"
proof -
  have ex: "parseDate now ''28 December - 2 January'' (Some 2025)
     = Inr \<lparr>startDate = Some ''2025-12-28'', endDate = Some ''2026-01-03''\<rparr>"
    by code_simp
  define S where "S = Date_new year (month_index sm) (parseInt sd)"
  define E where "E = Date_new year (month_index em) (parseInt ed)"
  define E' where "E' = rollover year sm em S E"
  have gen: "(year_advanced_by_one E E' \<longleftrightarrow> date_less E S \<and> month_less em sm)
      \<and> (year_advanced_by_one E E' \<or> E' = E)"
    if res: "range_result year sm em sd ed = Inr r"
      and y: "year < 0 \<or> 99 < year" and d: "1 \<le> parseInt ed" "parseInt ed \<le> 31"
  proof (cases "date_less E S \<and> month_less em sm")
    case True
    then obtain e where e: "E = Some e" by (cases E) (auto simp: date_less_def)
    from range_result_Inr[OF res] obtain l where "E' = Some l"
      unfolding E'_def S_def E_def by auto
    with True have l: "setFullYear E (year + 1) = Some l" by (simp add: E'_def rollover_def)
    have "YearFromTime l = year + 1" using setFullYear_year[OF l] .
    moreover have "YearFromTime e = year"
      using Date_new_year[OF e[unfolded E_def] y d] .
    ultimately have "year_advanced_by_one E E'"
      using e \<open>E' = Some l\<close> by (simp add: year_advanced_by_one_def)
    with True show ?thesis by simp
  next
    case False
    then have "E' = E" by (auto simp: E'_def rollover_def)
    moreover have "\<not> year_advanced_by_one E E"
      by (simp add: year_advanced_by_one_def split: option.splits)
    ultimately show ?thesis using False by simp
  qed
  have br: "parse_range year dateStr = range_result year sm em sd ed"
    if "split dateStr (if includes_str dateStr '' - '' then '' - '' else '' to '') = [p0, p1]"
      "range_months dateStr (trim p0) (trim p1) = (Some sm, Some em)"
      "match_digits (trim p0) = Some sd" "match_digits (trim p1) = Some ed"
    using that by (simp add: parse_range_def Let_def)
  show ?thesis using ex br gen unfolding S_def E_def E'_def by blast
qed

text \<open>
  C1, the amended statement at \<open>"28 December - 2 January"\<close>, 2025: the range block
  returns, the year and the end day satisfy the bounds, the rollover test holds, and
  the end date moves from 2025 into 2026.
\<close>

theorem rollover_advances_year_iff_witness:
  "split ''28 December - 2 January''
       (if includes_str ''28 December - 2 January'' '' - '' then '' - '' else '' to '')
     = [''28 December'', ''2 January'']
   \<and> range_months ''28 December - 2 January'' (trim ''28 December'') (trim ''2 January'')
       = (Some ''december'', Some ''january'')
   \<and> match_digits (trim ''28 December'') = Some ''28''
   \<and> match_digits (trim ''2 January'') = Some ''2''
   \<and> parse_range 2025 ''28 December - 2 January''
       = range_result 2025 ''december'' ''january'' ''28'' ''2''
   \<and> range_result 2025 ''december'' ''january'' ''28'' ''2''
     = Inr \<lparr>startDate = Some ''2025-12-28'', endDate = Some ''2026-01-03''\<rparr>
   \<and> ((2025::int) < 0 \<or> (99::int) < 2025) \<and> 1 \<le> parseInt ''2'' \<and> parseInt ''2'' \<le> 31
   \<and> date_less (Date_new 2025 (month_index ''january'') (parseInt ''2''))
        (Date_new 2025 (month_index ''december'') (parseInt ''28''))
   \<and> month_less ''january'' ''december''
   \<and> year_advanced_by_one
        (Date_new 2025 (month_index ''january'') (parseInt ''2''))
        (rollover 2025 ''december'' ''january''
           (Date_new 2025 (month_index ''december'') (parseInt ''28''))
           (Date_new 2025 (month_index ''january'') (parseInt ''2'')))"
proof -
  have h: "range_result 2025 ''december'' ''january'' ''28'' ''2''
     = Inr \<lparr>startDate = Some ''2025-12-28'', endDate = Some ''2026-01-03''\<rparr>
   \<and> ((2025::int) < 0 \<or> (99::int) < 2025) \<and> 1 \<le> parseInt ''2'' \<and> parseInt ''2'' \<le> 31"
    by code_simp
  have c: "date_less (Date_new 2025 (month_index ''january'') (parseInt ''2''))
        (Date_new 2025 (month_index ''december'') (parseInt ''28''))
   \<and> month_less ''january'' ''december''"
    by code_simp
  have b: "split ''28 December - 2 January''
       (if includes_str ''28 December - 2 January'' '' - '' then '' - '' else '' to '')
     = [''28 December'', ''2 January'']
   \<and> range_months ''28 December - 2 January'' (trim ''28 December'') (trim ''2 January'')
       = (Some ''december'', Some ''january'')
   \<and> match_digits (trim ''28 December'') = Some ''28''
   \<and> match_digits (trim ''2 January'') = Some ''2''"
    by code_simp
  from rollover_advances_year_iff[of 0 "''28 December - 2 January''" "''28 December''"
      "''2 January''" "''december''" "''january''" "''28''" "''2''" 2025
      "\<lparr>startDate = Some ''2025-12-28'', endDate = Some ''2026-01-03''\<rparr>"] h c b
  show ?thesis by blast
qed

text \<open>
  C1, as stated, fails at \<open>"28 December - 0 January"\<close> with context year 2025.  Both
  days (28 and 0) and both months resolve; the constructed end date, day 0 of January
  2025, is 31 December 2024, which is before the start date, and January is before
  December, so the rollover fires.  It sets the year to 2025 + 1: the end date moves
  from 2024 to 2026, two years on, and the result ends on \<open>2027-01-01\<close>.
\<close>

theorem rollover_day_zero_counterexample:
  "split ''28 December - 0 January'' '' - '' = [''28 December'', ''0 January'']
   \<and> range_months ''28 December - 0 January'' ''28 December'' ''0 January''
       = (Some ''december'', Some ''january'')
   \<and> match_digits ''28 December'' = Some ''28'' \<and> match_digits ''0 January'' = Some ''0''
   \<and> date_less (Date_new 2025 (month_index ''january'') (parseInt ''0''))
        (Date_new 2025 (month_index ''december'') (parseInt ''28''))
   \<and> month_less ''january'' ''december''
   \<and> getFullYear (Date_new 2025 (month_index ''january'') (parseInt ''0'')) = Some 2024
   \<and> getFullYear (rollover 2025 ''december'' ''january''
         (Date_new 2025 (month_index ''december'') (parseInt ''28''))
         (Date_new 2025 (month_index ''january'') (parseInt ''0''))) = Some 2026
   \<and> \<not> year_advanced_by_one
        (Date_new 2025 (month_index ''january'') (parseInt ''0''))
        (rollover 2025 ''december'' ''january''
           (Date_new 2025 (month_index ''december'') (parseInt ''28''))
           (Date_new 2025 (month_index ''january'') (parseInt ''0'')))
   \<and> parseDate 0 ''28 December - 0 January'' (Some 2025)
       = Inr \<lparr>startDate = Some ''2025-12-28'', endDate = Some ''2027-01-01''\<rparr>"
  by code_simp

subsection \<open>C2: the shape of a resolved pair\<close>

text \<open>
  C2, as amended.  If \<open>parseDate\<close> returns a pair that is not \<open>(null, null)\<close>, the pair
  is fixed by the phrase as follows.  For a phrase of the single-date branch, the start
  is the ISO date of the date \<open>t\<close> constructed from the year, the month and the digit
  run found in the phrase, and the end is the ISO date of \<open>t\<close> plus one day.  For a
  phrase of the range branch, the start is the ISO date of the constructed start date
  \<open>s\<close>, and the end is the ISO date of one day after the last day \<open>l\<close>, the constructed
  end date as the rollover test leaves it: the constructed end date itself when the
  rollover does not fire.  The end of a range is later than its start when the
  constructed end date is not before the constructed start date, and also when the
  rollover fires, the year is not one of 0 to 99 and the start day number is at most
  31.
\<close>

theorem resolved_end_is_day_after_last_day:
  assumes "parseDate now phrase yearArg = Inr r" and "r \<noteq> unresolved"
  shows "(\<not> (includes_str (resolved_text phrase) '' - ''
              \<or> includes_str (resolved_text phrase) '' to '')
          \<and> (\<exists>dayMatch month t.
                match_digits (resolved_text phrase) = Some dayMatch
              \<and> first_month monthKeys (resolved_text phrase) = Some month
              \<and> Date_new (resolved_year now yearArg phrase) (month_index month)
                    (parseInt dayMatch) = Some t
              \<and> r = \<lparr>startDate = Some (iso_day t),
                       endDate = Some (iso_day (t + msPerDay))\<rparr>))
       \<or> ((includes_str (resolved_text phrase) '' - ''
              \<or> includes_str (resolved_text phrase) '' to '')
          \<and> (\<exists>p0 p1 sm em sd ed s l.
                split (resolved_text phrase)
                  (if includes_str (resolved_text phrase) '' - '' then '' - '' else '' to '')
                  = [p0, p1]
              \<and> range_months (resolved_text phrase) (trim p0) (trim p1) = (Some sm, Some em)
              \<and> match_digits (trim p0) = Some sd \<and> match_digits (trim p1) = Some ed
              \<and> Date_new (resolved_year now yearArg phrase) (month_index sm) (parseInt sd)
                  = Some s
              \<and> rollover (resolved_year now yearArg phrase) sm em (Some s)
                    (Date_new (resolved_year now yearArg phrase) (month_index em)
                       (parseInt ed)) = Some l
              \<and> r = \<lparr>startDate = Some (iso_day s),
                       endDate = Some (iso_day (l + msPerDay))\<rparr>
              \<and> (\<not> (date_less (Date_new (resolved_year now yearArg phrase)
                                  (month_index em) (parseInt ed)) (Some s)
                      \<and> month_less em sm)
                   \<longrightarrow> Date_new (resolved_year now yearArg phrase) (month_index em)
                         (parseInt ed) = Some l)
              \<and> (\<not> date_less (Date_new (resolved_year now yearArg phrase) (month_index em)
                                 (parseInt ed)) (Some s)
                   \<longrightarrow> s < l + msPerDay)
              \<and> (date_less (Date_new (resolved_year now yearArg phrase) (month_index em)
                               (parseInt ed)) (Some s)
                    \<and> month_less em sm
                    \<and> (resolved_year now yearArg phrase < 0
                         \<or> 99 < resolved_year now yearArg phrase)
                    \<and> parseInt sd \<le> 31
                   \<longrightarrow> s < l + msPerDay)))"
proof -
  have na: "\<not> includes_str (toLowerCase (replace_ordinals phrase)) ''not announced yet''"
    using assms by (auto simp: parseDate_def Let_def)
  show ?thesis
  proof (cases "includes_str (resolved_text phrase) '' - ''
              \<or> includes_str (resolved_text phrase) '' to ''")
    case False
    then have "parse_single (resolved_year now yearArg phrase) (resolved_text phrase) = Inr r"
      using parseDate_single_branch[OF na, of now yearArg] assms(1) by simp
    from parse_single_resolved[OF this assms(2)] False show ?thesis by blast
  next
    case True
    then have "parse_range (resolved_year now yearArg phrase) (resolved_text phrase) = Inr r"
      using parseDate_range_branch[OF na True, of now yearArg] assms(1) by simp
    from parse_range_resolved[OF this assms(2)] obtain p0 p1 sm em sd ed s l where
      a: "split (resolved_text phrase)
            (if includes_str (resolved_text phrase) '' - '' then '' - '' else '' to '')
            = [p0, p1]"
         "range_months (resolved_text phrase) (trim p0) (trim p1) = (Some sm, Some em)"
         "match_digits (trim p0) = Some sd" "match_digits (trim p1) = Some ed"
         "Date_new (resolved_year now yearArg phrase) (month_index sm) (parseInt sd) = Some s"
         "rollover (resolved_year now yearArg phrase) sm em (Some s)
            (Date_new (resolved_year now yearArg phrase) (month_index em) (parseInt ed))
            = Some l"
         "r = \<lparr>startDate = Some (iso_day s), endDate = Some (iso_day (l + msPerDay))\<rparr>"
      by blast
    from rollover_order[OF a(5) a(6)] a True show ?thesis by blast
  qed
qed

text \<open>
  C2, the amended statement at \<open>"28 December - 2 January"\<close>, 2025: the pair returned is
  not \<open>(null, null)\<close>, the phrase is of the range branch, the rollover fires, and the
  year and the start day satisfy the bounds of the second ordering rule.
\<close>

theorem resolved_end_is_day_after_last_day_witness:
  "parseDate 0 ''28 December - 2 January'' (Some 2025)
     = Inr \<lparr>startDate = Some ''2025-12-28'', endDate = Some ''2026-01-03''\<rparr>
   \<and> \<lparr>startDate = Some ''2025-12-28'', endDate = Some ''2026-01-03''\<rparr> \<noteq> unresolved
   \<and> split (resolved_text ''28 December - 2 January'') '' - ''
       = [''28 December'', ''2 January'']
   \<and> resolved_year 0 (Some 2025) ''28 December - 2 January'' = 2025
   \<and> date_less (Date_new 2025 (month_index ''january'') (parseInt ''2''))
        (Date_new 2025 (month_index ''december'') (parseInt ''28''))
   \<and> month_less ''january'' ''december''
   \<and> parseInt ''28'' \<le> 31
   \<and> ((\<not> (includes_str (resolved_text ''28 December - 2 January'') '' - ''
              \<or> includes_str (resolved_text ''28 December - 2 January'') '' to '')
          \<and> (\<exists>dayMatch month t.
                match_digits (resolved_text ''28 December - 2 January'') = Some dayMatch
              \<and> first_month monthKeys (resolved_text ''28 December - 2 January'') = Some month
              \<and> Date_new (resolved_year 0 (Some 2025) ''28 December - 2 January'')
                    (month_index month) (parseInt dayMatch) = Some t
              \<and> \<lparr>startDate = Some ''2025-12-28'', endDate = Some ''2026-01-03''\<rparr>
                  = \<lparr>startDate = Some (iso_day t),
                       endDate = Some (iso_day (t + msPerDay))\<rparr>))
       \<or> ((includes_str (resolved_text ''28 December - 2 January'') '' - ''
              \<or> includes_str (resolved_text ''28 December - 2 January'') '' to '')
          \<and> (\<exists>p0 p1 sm em sd ed s l.
                split (resolved_text ''28 December - 2 January'')
                  (if includes_str (resolved_text ''28 December - 2 January'') '' - ''
                   then '' - '' else '' to '')
                  = [p0, p1]
              \<and> range_months (resolved_text ''28 December - 2 January'') (trim p0) (trim p1)
                  = (Some sm, Some em)
              \<and> match_digits (trim p0) = Some sd \<and> match_digits (trim p1) = Some ed
              \<and> Date_new (resolved_year 0 (Some 2025) ''28 December - 2 January'')
                    (month_index sm) (parseInt sd) = Some s
              \<and> rollover (resolved_year 0 (Some 2025) ''28 December - 2 January'') sm em
                    (Some s)
                    (Date_new (resolved_year 0 (Some 2025) ''28 December - 2 January'')
                       (month_index em) (parseInt ed)) = Some l
              \<and> \<lparr>startDate = Some ''2025-12-28'', endDate = Some ''2026-01-03''\<rparr>
                  = \<lparr>startDate = Some (iso_day s),
                       endDate = Some (iso_day (l + msPerDay))\<rparr>
              \<and> (\<not> (date_less (Date_new (resolved_year 0 (Some 2025)
                                    ''28 December - 2 January'') (month_index em)
                                  (parseInt ed)) (Some s)
                      \<and> month_less em sm)
                   \<longrightarrow> Date_new (resolved_year 0 (Some 2025) ''28 December - 2 January'')
                         (month_index em) (parseInt ed) = Some l)
              \<and> (\<not> date_less (Date_new (resolved_year 0 (Some 2025)
                                   ''28 December - 2 January'') (month_index em)
                                 (parseInt ed)) (Some s)
                   \<longrightarrow> s < l + msPerDay)
              \<and> (date_less (Date_new (resolved_year 0 (Some 2025)
                                 ''28 December - 2 January'') (month_index em)
                               (parseInt ed)) (Some s)
                    \<and> month_less em sm
                    \<and> (resolved_year 0 (Some 2025) ''28 December - 2 January'' < 0
                         \<or> 99 < resolved_year 0 (Some 2025) ''28 December - 2 January'')
                    \<and> parseInt sd \<le> 31
                   \<longrightarrow> s < l + msPerDay))))"
proof -
  have h1: "parseDate 0 ''28 December - 2 January'' (Some 2025)
     = Inr \<lparr>startDate = Some ''2025-12-28'', endDate = Some ''2026-01-03''\<rparr>"
    by code_simp
  have h2: "\<lparr>startDate = Some ''2025-12-28'', endDate = Some ''2026-01-03''\<rparr> \<noteq> unresolved"
    by (simp add: unresolved_def)
  have e: "split (resolved_text ''28 December - 2 January'') '' - ''
       = [''28 December'', ''2 January'']
   \<and> resolved_year 0 (Some 2025) ''28 December - 2 January'' = 2025
   \<and> date_less (Date_new 2025 (month_index ''january'') (parseInt ''2''))
        (Date_new 2025 (month_index ''december'') (parseInt ''28''))
   \<and> month_less ''january'' ''december''
   \<and> parseInt ''28'' \<le> 31"
    by code_simp
  from resolved_end_is_day_after_last_day[OF h1 h2] h1 h2 e show ?thesis by blast
qed

text \<open>
  C2, as stated, fails at \<open>"25 - 18 January"\<close> with context year 2025: the months are
  equal, so no rollover fires, and the pair returned has the end date \<open>2025-01-19\<close>,
  the ISO date of a day before the day of the start date \<open>2025-01-25\<close>.
\<close>

theorem end_before_start_counterexample:
  "parseDate 0 ''25 - 18 January'' (Some 2025)
     = Inr \<lparr>startDate = Some ''2025-01-25'', endDate = Some ''2025-01-19''\<rparr>
   \<and> iso_date (Date_new 2025 (Some 0) 25) = Inr (Some ''2025-01-25'')
   \<and> iso_date (Date_new 2025 (Some 0) 19) = Inr (Some ''2025-01-19'')
   \<and> date_less (Date_new 2025 (Some 0) 19) (Date_new 2025 (Some 0) 25)
   \<and> \<not> month_less ''january'' ''january''"
  by code_simp

subsection \<open>C3: a year without a comma\<close>

text \<open>
  C3.  The claim: for every context year, \<open>"March 2026"\<close> resolves to \<open>(null, null)\<close>,
  since no digit run is left once the year is stripped.  The code strips only the text
  \<open>", 2026"\<close>; here no comma precedes the year, the digits stay, and \<open>2026\<close> is read as
  the day of March 2026: the result is a date in September 2031, whatever the year
  argument.
\<close>

theorem march_2026_resolves_to_2031:
  "parseDate now ''March 2026'' yearArg =
     Inr \<lparr>startDate = Some ''2031-09-16'', endDate = Some ''2031-09-17''\<rparr>"
  by code_simp

subsection \<open>C4: the start month of a range\<close>



subsection \<open>C5: a single day\<close>



subsection \<open>C6: not announced yet\<close>

text \<open>
  C6.  A phrase that, after the ordinal suffixes are removed, has a substring equal to
  \<open>"not announced yet"\<close> up to case resolves to \<open>(null, null)\<close>, whatever else it
  contains and whatever the year argument; so does \<open>"Not announced yet"\<close>.
\<close>

theorem not_announced_yet_unresolved:
  "((\<exists>pre mid post. replace_ordinals phrase = pre @ mid @ post
        \<and> toLowerCase mid = ''not announced yet'')
      \<longrightarrow> parseDate now phrase yearArg = Inr \<lparr>startDate = None, endDate = None\<rparr>)
   \<and> parseDate now ''Not announced yet'' yearArg = Inr \<lparr>startDate = None, endDate = None\<rparr>"
proof -
  have "parseDate now phrase yearArg = Inr \<lparr>startDate = None, endDate = None\<rparr>"
    if "\<exists>pre mid post. replace_ordinals phrase = pre @ mid @ post
        \<and> toLowerCase mid = ''not announced yet''"
  proof -
    from that obtain pre mid post where e: "replace_ordinals phrase = pre @ mid @ post"
      and m: "toLowerCase mid = ''not announced yet''" by blast
    have "toLowerCase (replace_ordinals phrase)
        = toLowerCase pre @ ''not announced yet'' @ toLowerCase post"
      unfolding e using m by (simp add: toLowerCase_def)
    then have "includes_str (toLowerCase (replace_ordinals phrase)) ''not announced yet''"
      unfolding includes_str_iff by blast
    then show ?thesis by (simp add: parseDate_def Let_def unresolved_def)
  qed
  moreover have "parseDate now ''Not announced yet'' yearArg
      = Inr \<lparr>startDate = None, endDate = None\<rparr>"
    by code_simp
  ultimately show ?thesis by blast
qed

text \<open>
  C6 at \<open>"4th March (Not Announced YET)"\<close>: the phrase holds a date that resolves on its
  own, and the result is \<open>(null, null)\<close>.
\<close>

theorem not_announced_yet_unresolved_witness:
  "replace_ordinals ''4th March (Not Announced YET)'' = ''4 March ('' @ ''Not Announced YET'' @ '')''
   \<and> toLowerCase ''Not Announced YET'' = ''not announced yet''
   \<and> parse_single 2025 ''4 March''
       = Inr \<lparr>startDate = Some ''2025-03-04'', endDate = Some ''2025-03-05''\<rparr>
   \<and> parseDate 0 ''4th March (Not Announced YET)'' (Some 2025)
       = Inr \<lparr>startDate = None, endDate = None\<rparr>"
proof -
  have h: "replace_ordinals ''4th March (Not Announced YET)''
       = ''4 March ('' @ ''Not Announced YET'' @ '')''
   \<and> toLowerCase ''Not Announced YET'' = ''not announced yet''"
    by code_simp
  have p: "parse_single 2025 ''4 March''
       = Inr \<lparr>startDate = Some ''2025-03-04'', endDate = Some ''2025-03-05''\<rparr>"
    by code_simp
  from h have "\<exists>pre mid post. replace_ordinals ''4th March (Not Announced YET)'' = pre @ mid @ post
        \<and> toLowerCase mid = ''not announced yet''" by blast
  with not_announced_yet_unresolved[of "''4th March (Not Announced YET)''" 0 "Some 2025"] h p show ?thesis by blast
qed

subsection \<open>C7: a day beyond the end of the month\<close>

text \<open>
  C7, as amended.  \<open>"31 April"\<close> with context year 2025 resolves to start \<open>2025-05-01\<close>
  and end \<open>2025-05-02\<close>.  In general, take a phrase of the single-date branch with a
  digit run and a month name, in a year from -271000 to 275000 (as the date
  construction counts it), whose day number exceeds the length of the month by 1 to
  28.  No validation happens: the day is passed to the date construction, which gives
  a valid date \<open>t\<close>; \<open>parseDate\<close> returns the non-null pair of the ISO dates of \<open>t\<close> and of
  the day after; and \<open>t\<close> is the day of the following month (January of the following
  year after December) whose number is the day number minus the length of the month.
\<close>

theorem day_beyond_month_rolls_into_next_month:
  "parseDate now ''31 April'' (Some 2025)
     = Inr \<lparr>startDate = Some ''2025-05-01'', endDate = Some ''2025-05-02''\<rparr>
   \<and> (\<not> includes_str (toLowerCase (replace_ordinals phrase)) ''not announced yet''
        \<and> \<not> includes_str (resolved_text phrase) '' - ''
        \<and> \<not> includes_str (resolved_text phrase) '' to ''
        \<and> match_digits (resolved_text phrase) = Some dayMatch
        \<and> first_month monthKeys (resolved_text phrase) = Some month
        \<and> month_index month = Some mi
        \<and> y = full_year (resolved_year now yearArg phrase)
        \<and> - 271000 \<le> y \<and> y \<le> 275000
        \<and> month_length y mi < parseInt dayMatch
        \<and> parseInt dayMatch \<le> month_length y mi + 28
        \<and> t = MakeDate (MakeDay y mi (parseInt dayMatch)) 0
      \<longrightarrow> Date_new (resolved_year now yearArg phrase) (month_index month) (parseInt dayMatch)
            = Some t
        \<and> parseDate now phrase yearArg
            = Inr \<lparr>startDate = Some (iso_day t), endDate = Some (iso_day (t + msPerDay))\<rparr>
        \<and> YearFromTime t = y + (mi + 1) div 12
        \<and> MonthFromTime t = (mi + 1) mod 12
        \<and> DateFromTime t = parseInt dayMatch - month_length y mi)"
proof -
  have ex: "parseDate now ''31 April'' (Some 2025)
     = Inr \<lparr>startDate = Some ''2025-05-01'', endDate = Some ''2025-05-02''\<rparr>"
    by code_simp
  have gen: "Date_new (resolved_year now yearArg phrase) (month_index month) (parseInt dayMatch)
            = Some t
        \<and> parseDate now phrase yearArg
            = Inr \<lparr>startDate = Some (iso_day t), endDate = Some (iso_day (t + msPerDay))\<rparr>
        \<and> YearFromTime t = y + (mi + 1) div 12
        \<and> MonthFromTime t = (mi + 1) mod 12
        \<and> DateFromTime t = parseInt dayMatch - month_length y mi"
    if na: "\<not> includes_str (toLowerCase (replace_ordinals phrase)) ''not announced yet''"
      and s1: "\<not> includes_str (resolved_text phrase) '' - ''"
      and s2: "\<not> includes_str (resolved_text phrase) '' to ''"
      and dm: "match_digits (resolved_text phrase) = Some dayMatch"
      and fm: "first_month monthKeys (resolved_text phrase) = Some month"
      and mi: "month_index month = Some mi"
      and y: "y = full_year (resolved_year now yearArg phrase)"
      and yb: "- 271000 \<le> y" "y \<le> 275000"
      and d1: "month_length y mi < parseInt dayMatch"
      and d2: "parseInt dayMatch \<le> month_length y mi + 28"
      and t: "t = MakeDate (MakeDay y mi (parseInt dayMatch)) 0"
  proof -
    define d where "d = parseInt dayMatch"
    define d' where "d' = d - month_length y mi"
    from mi obtain n where n: "monthNumber month = Some n" and mn: "mi = n - 1"
      by (auto simp: month_index_def)
    have m: "0 \<le> mi" "mi \<le> 11" using monthNumber_range[OF n] mn by simp_all
    have ml: "28 \<le> month_length y mi" "month_length y mi \<le> 31"
      using month_length_bounds[of y mi] by simp_all
    have db: "0 \<le> d" "d \<le> 62" using d1 d2 ml unfolding d_def by linarith+
    have mb: "- 99999998 \<le> MakeDay y mi d" "MakeDay y mi d \<le> 99999998"
      using MakeDay_bounds[OF yb m db] by simp_all
    have te: "t = MakeDay y mi d * msPerDay" by (simp add: t d_def MakeDate_def)
    have clip: "TimeClip (MakeDate (MakeDay y mi d) 0) = Some t"
      unfolding te by (rule TimeClip_day) (use mb in linarith)+
    have clip': "TimeClip (t + msPerDay) = Some (t + msPerDay)"
      unfolding te by (rule TimeClip_day) (use mb in linarith)+
    have dn: "Date_new (resolved_year now yearArg phrase) (month_index month) (parseInt dayMatch)
        = Some t"
      using clip by (simp add: mi Date_new_full_year y d_def)
    have res: "parseDate now phrase yearArg
        = Inr \<lparr>startDate = Some (iso_day t), endDate = Some (iso_day (t + msPerDay))\<rparr>"
      unfolding parseDate_single_branch[OF na s1 s2]
      by (simp add: parse_single_def dm fm single_result_Some[OF dn] clip')
    have nx: "MakeDay y mi d = MakeDay (y + (mi + 1) div 12) ((mi + 1) mod 12) d'"
      unfolding d'_def
      using MakeDay_next_month[OF m, of y d] MakeDay_normalise[of y "mi + 1"] by simp
    have m': "0 \<le> (mi + 1) mod 12" "(mi + 1) mod 12 \<le> 11" by simp_all
    have d'b: "1 \<le> d'" "d' \<le> month_length (y + (mi + 1) div 12) ((mi + 1) mod 12)"
      using d1 d2 month_length_bounds[of "y + (mi + 1) div 12" "(mi + 1) mod 12"]
      unfolding d'_def d_def by linarith+
    have z: "(0::int) \<le> 0" "0 < msPerDay" by (simp_all add: msPerDay_def)
    have "t = MakeDate (MakeDay (y + (mi + 1) div 12) ((mi + 1) mod 12) d') 0"
      using nx by (simp add: t d_def)
    then have rb: "YearFromTime t = y + (mi + 1) div 12 \<and> MonthFromTime t = (mi + 1) mod 12
        \<and> DateFromTime t = d'"
      using MakeDay_read_back[OF m' d'b z] by simp
    show ?thesis using dn res rb unfolding d'_def d_def by simp
  qed
  show ?thesis using ex gen by blast
qed

text \<open>C7, the amended statement at \<open>"31 April"\<close>, 2025: the start is 1 May 2025.\<close>

theorem day_beyond_month_rolls_into_next_month_witness:
  "\<not> includes_str (toLowerCase (replace_ordinals ''31 April'')) ''not announced yet''
   \<and> \<not> includes_str (resolved_text ''31 April'') '' - ''
   \<and> \<not> includes_str (resolved_text ''31 April'') '' to ''
   \<and> match_digits (resolved_text ''31 April'') = Some ''31''
   \<and> first_month monthKeys (resolved_text ''31 April'') = Some ''april''
   \<and> month_index ''april'' = Some 3
   \<and> (2025::int) = full_year (resolved_year 0 (Some 2025) ''31 April'')
   \<and> - 271000 \<le> (2025::int) \<and> (2025::int) \<le> 275000
   \<and> month_length 2025 3 < parseInt ''31''
   \<and> parseInt ''31'' \<le> month_length 2025 3 + 28
   \<and> (1746057600000::int) = MakeDate (MakeDay 2025 3 (parseInt ''31'')) 0
   \<and> parseDate 0 ''31 April'' (Some 2025)
       = Inr \<lparr>startDate = Some (iso_day 1746057600000),
               endDate = Some (iso_day (1746057600000 + msPerDay))\<rparr>
   \<and> YearFromTime 1746057600000 = 2025
   \<and> MonthFromTime 1746057600000 = 4
   \<and> DateFromTime 1746057600000 = parseInt ''31'' - month_length 2025 3
   \<and> parseInt ''31'' - month_length 2025 3 = 1
   \<and> iso_day 1746057600000 = ''2025-05-01''"
proof -
  have h: "\<not> includes_str (toLowerCase (replace_ordinals ''31 April'')) ''not announced yet''
   \<and> \<not> includes_str (resolved_text ''31 April'') '' - ''
   \<and> \<not> includes_str (resolved_text ''31 April'') '' to ''
   \<and> match_digits (resolved_text ''31 April'') = Some ''31''
   \<and> first_month monthKeys (resolved_text ''31 April'') = Some ''april''
   \<and> month_index ''april'' = Some 3
   \<and> (2025::int) = full_year (resolved_year 0 (Some 2025) ''31 April'')
   \<and> - 271000 \<le> (2025::int) \<and> (2025::int) \<le> 275000
   \<and> month_length 2025 3 < parseInt ''31''
   \<and> parseInt ''31'' \<le> month_length 2025 3 + 28
   \<and> (1746057600000::int) = MakeDate (MakeDay 2025 3 (parseInt ''31'')) 0"
    by code_simp
  have e: "parseInt ''31'' - month_length 2025 3 = 1
      \<and> iso_day 1746057600000 = ''2025-05-01''"
    by code_simp
  have g: "parseDate 0 ''31 April'' (Some 2025)
            = Inr \<lparr>startDate = Some (iso_day 1746057600000),
                    endDate = Some (iso_day (1746057600000 + msPerDay))\<rparr>
        \<and> YearFromTime 1746057600000 = 2025 + (3 + 1) div 12
        \<and> MonthFromTime 1746057600000 = (3 + 1) mod 12
        \<and> DateFromTime 1746057600000 = parseInt ''31'' - month_length 2025 3"
    using day_beyond_month_rolls_into_next_month[of 0 "''31 April''" "''31''" "''april''" 3 2025 "Some 2025" 1746057600000] h
    by blast
  have "YearFromTime 1746057600000 = 2025 \<and> MonthFromTime 1746057600000 = 4"
    using g by simp
  with g h e show ?thesis by blast
qed

lemma big_day: "parseInt ''999999999'' = 999999999"
  by (simp add: parseInt_def)

text \<open>
  C7, as stated, fails at \<open>"999999999 March"\<close> with context year 2025.  The phrase is of
  the single-date branch, its day number exceeds the length of March, and the day is
  passed to the date construction; but the date is beyond the range of valid dates,
  \<open>toISOString\<close> throws a \<open>RangeError\<close>, and \<open>parseDate\<close> returns no pair at all.
\<close>

theorem huge_day_throws_counterexample:
  "\<not> includes_str (toLowerCase (replace_ordinals ''999999999 March'')) ''not announced yet''
   \<and> resolved_text ''999999999 March'' = ''999999999 March''
   \<and> resolved_year 0 (Some 2025) ''999999999 March'' = 2025
   \<and> \<not> includes_str ''999999999 March'' '' - ''
   \<and> \<not> includes_str ''999999999 March'' '' to ''
   \<and> match_digits ''999999999 March'' = Some ''999999999''
   \<and> first_month monthKeys ''999999999 March'' = Some ''march''
   \<and> month_index ''march'' = Some 2
   \<and> month_length 2025 2 < parseInt ''999999999''
   \<and> Date_new 2025 (month_index ''march'') (parseInt ''999999999'') = None
   \<and> parseDate 0 ''999999999 March'' (Some 2025) = Inl RangeError"
proof -
  have a: "\<not> includes_str (toLowerCase (replace_ordinals ''999999999 March'')) ''not announced yet''
   \<and> resolved_text ''999999999 March'' = ''999999999 March''
   \<and> resolved_year 0 (Some 2025) ''999999999 March'' = 2025
   \<and> \<not> includes_str ''999999999 March'' '' - ''
   \<and> \<not> includes_str ''999999999 March'' '' to ''
   \<and> match_digits ''999999999 March'' = Some ''999999999''
   \<and> first_month monthKeys ''999999999 March'' = Some ''march''
   \<and> month_index ''march'' = Some 2"
    by code_simp
  have b: "month_length 2025 2 < parseInt ''999999999''"
    by (simp add: big_day month_length_def)
  have "MakeDay 2025 2 999999999 = 1000020146"
    by (simp add: MakeDay_def Let_def DayFromYear_def DaysInYear_def DayOfMonthStart_def)
  then have c: "Date_new 2025 (month_index ''march'') (parseInt ''999999999'') = None"
    using a by (simp add: big_day Date_new_full_year full_year_def TimeClip_def MakeDate_def
        msPerDay_def)
  have "parseDate 0 ''999999999 March'' (Some 2025) = parse_single 2025 ''999999999 March''"
    using parseDate_single_branch[of "''999999999 March''" 0 "Some 2025"] a by simp
  also have "\<dots> = Inl RangeError"
    using a by (simp add: parse_single_def single_result_None[OF c])
  finally show ?thesis using a b c by simp
qed

subsection \<open>C8: a run without events\<close>

text \<open>
  C8.  If no entry of the document resolves (each date yields \<open>(null, null)\<close>, or there
  is no entry), \<open>main\<close> writes no file, and the last thing it does is to print the
  error message of the empty run; no exception is involved.  The same holds for the
  \<open>main\<close> that passes the current year.  (By \<open>eventPattern_groups\<close> every match has the
  five groups that \<open>no_event_resolves\<close> looks at.)
\<close>

theorem main_writes_nothing_without_events:
  "(no_event_resolves now (fst (detect_year (YearFromTime (LocalTime now)) markdownText))
        (rx_exec_all eventPattern 0 markdownText)
      \<longrightarrow> files_written (main now (Inr markdownText)) = []
        \<and> last (main now (Inr markdownText))
            = ConsoleError ''No events were successfully parsed. Check date formats.'')
   \<and> (no_event_resolves now (YearFromTime (LocalTime now))
        (rx_exec_all eventPattern 0 markdownText)
      \<longrightarrow> files_written (main_currentYear now (Inr markdownText)) = []
        \<and> last (main_currentYear now (Inr markdownText))
            = ConsoleError
                ''No events were successfully parsed. Check the date formats and errors above.'')"
proof -
  define ms where "ms = rx_exec_all eventPattern 0 markdownText"
  define cy where "cy = YearFromTime (LocalTime now)"
  obtain dy logged where d: "detect_year cy markdownText = (dy, logged)"
    by (cases "detect_year cy markdownText")
  have lg: "files_written logged = []"
    using files_written_detect_year[of cy markdownText] d by simp
  have a: "files_written (main now (Inr markdownText)) = []
        \<and> last (main now (Inr markdownText))
            = ConsoleError ''No events were successfully parsed. Check date formats.''"
    if "no_event_resolves now dy ms"
  proof -
    from process_matches_unresolved[OF that, of "[]" logged 0 0] obtain ws fc' where
      "process_matches now dy ms ([], logged, 0, 0)
         = (None, ([], logged @ map ConsoleWarn ws, 0, fc'))" by blast
    then show ?thesis
      using finish_run_empty[OF lg] d by (simp add: main_def Let_def ms_def cy_def)
  qed
  have b: "files_written (main_currentYear now (Inr markdownText)) = []
        \<and> last (main_currentYear now (Inr markdownText))
            = ConsoleError
                ''No events were successfully parsed. Check the date formats and errors above.''"
    if "no_event_resolves now cy ms"
  proof -
    have e: "files_written [] = []" by (simp add: files_written_def)
    from process_matches_unresolved[OF that, of "[]" "[]" 0 0] obtain ws fc' where
      "process_matches now cy ms ([], [], 0, 0)
         = (None, ([], [] @ map ConsoleWarn ws, 0, fc'))" by blast
    then show ?thesis
      using finish_run_empty[OF e] by (simp add: main_currentYear_def Let_def ms_def cy_def)
  qed
  show ?thesis using a b d unfolding ms_def cy_def by simp
qed

text \<open>C8 at a document of two entries, one not announced yet and one without a day.\<close>

theorem main_writes_nothing_without_events_witness:
  "rx_exec_all eventPattern 0 doc_unannounced
     = [[''FOSSASIA Summit'', ''https://summit.fossasia.org'', ''Not announced yet'',
         ''In-person'', ''Bangkok''],
        [''Some Conf'', ''https://example.org'', ''Spring'', ''Online'', ''Web'']]
   \<and> no_event_resolves 0 (fst (detect_year (YearFromTime (LocalTime 0)) doc_unannounced))
        (rx_exec_all eventPattern 0 doc_unannounced)
   \<and> no_event_resolves 0 (YearFromTime (LocalTime 0))
        (rx_exec_all eventPattern 0 doc_unannounced)
   \<and> files_written (main 0 (Inr doc_unannounced)) = []
   \<and> files_written (main_currentYear 0 (Inr doc_unannounced)) = []"
proof -
  have h: "rx_exec_all eventPattern 0 doc_unannounced
     = [[''FOSSASIA Summit'', ''https://summit.fossasia.org'', ''Not announced yet'',
         ''In-person'', ''Bangkok''],
        [''Some Conf'', ''https://example.org'', ''Spring'', ''Online'', ''Web'']]
   \<and> no_event_resolves 0 (fst (detect_year (YearFromTime (LocalTime 0)) doc_unannounced))
        (rx_exec_all eventPattern 0 doc_unannounced)
   \<and> no_event_resolves 0 (YearFromTime (LocalTime 0))
        (rx_exec_all eventPattern 0 doc_unannounced)"
    by code_simp
  from main_writes_nothing_without_events[of 0 doc_unannounced] h show ?thesis by blast
qed

subsection \<open>C9: no dependency on the clock\<close>

text \<open>
  C9.  With an explicit context year the result does not depend on the current time:
  two calls with the same phrase and year return the same, whatever the clock reads at
  each.
\<close>

theorem parseDate_independent_of_clock:
  "parseDate now1 phrase (Some year) = parseDate now2 phrase (Some year)"
  by (simp add: parseDate_def)

subsection \<open>C10: which month wins\<close>

text \<open>
  C10.  In the range branch the month of a part is the name that occurs in the part
  and after which, in the order of the table, no other name occurs in it: the latest
  in table order.  In the single-date branch the month is the name that occurs and
  before which, in the order of the table, no other name occurs: the earliest.  So
  \<open>"5 January March - 6 April"\<close> starts in March and \<open>"5 January March"\<close> is in January.
\<close>

theorem month_tie_break_last_versus_first:
  "(fst (months_of_parts monthKeys startPart endPart (None, None)) = Some m \<longleftrightarrow>
     (\<exists>before after. monthKeys = before @ m # after
        \<and> includes_str (toLowerCase startPart) m
        \<and> (\<forall>m'\<in>set after. \<not> includes_str (toLowerCase startPart) m')))
   \<and> (snd (months_of_parts monthKeys startPart endPart (None, None)) = Some m \<longleftrightarrow>
     (\<exists>before after. monthKeys = before @ m # after
        \<and> includes_str (toLowerCase endPart) m
        \<and> (\<forall>m'\<in>set after. \<not> includes_str (toLowerCase endPart) m')))
   \<and> (first_month monthKeys dateStr = Some m \<longleftrightarrow>
     (\<exists>before after. monthKeys = before @ m # after
        \<and> includes_str (toLowerCase dateStr) m
        \<and> (\<forall>m'\<in>set before. \<not> includes_str (toLowerCase dateStr) m')))
   \<and> parseDate now ''5 January March - 6 April'' (Some 2025)
       = Inr \<lparr>startDate = Some ''2025-03-05'', endDate = Some ''2025-04-07''\<rparr>
   \<and> parseDate now ''5 January March'' (Some 2025)
       = Inr \<lparr>startDate = Some ''2025-01-05'', endDate = Some ''2025-01-06''\<rparr>"
proof -
  have "parseDate now ''5 January March - 6 April'' (Some 2025)
       = Inr \<lparr>startDate = Some ''2025-03-05'', endDate = Some ''2025-04-07''\<rparr>"
    by code_simp
  moreover have "parseDate now ''5 January March'' (Some 2025)
       = Inr \<lparr>startDate = Some ''2025-01-05'', endDate = Some ''2025-01-06''\<rparr>"
    by code_simp
  ultimately show ?thesis
    using months_of_parts_fst_last[of monthKeys startPart endPart None m]
      months_of_parts_snd_last[of monthKeys startPart endPart None m]
      first_month_first[of monthKeys dateStr m]
    by blast
qed

text \<open>
  C10 at the part \<open>"5 January March"\<close>: the loop of the range branch selects March, the
  search of the single-date branch January.
\<close>

theorem month_tie_break_last_versus_first_witness:
  "monthKeys = [''january'', ''february''] @ ''march'' #
       [''april'', ''may'', ''june'', ''july'', ''august'', ''september'', ''october'',
        ''november'', ''december'']
   \<and> includes_str (toLowerCase ''5 January March'') ''march''
   \<and> list_all (\<lambda>m'. \<not> includes_str (toLowerCase ''5 January March'') m')
        [''april'', ''may'', ''june'', ''july'', ''august'', ''september'', ''october'',
         ''november'', ''december'']
   \<and> fst (months_of_parts monthKeys ''5 January March'' ''6 April'' (None, None))
       = Some ''march''
   \<and> monthKeys = [] @ ''january'' #
       [''february'', ''march'', ''april'', ''may'', ''june'', ''july'', ''august'',
        ''september'', ''october'', ''november'', ''december'']
   \<and> includes_str (toLowerCase ''5 January March'') ''january''
   \<and> first_month monthKeys ''5 January March'' = Some ''january''"
proof -
  have a: "monthKeys = [''january'', ''february''] @ ''march'' #
       [''april'', ''may'', ''june'', ''july'', ''august'', ''september'', ''october'',
        ''november'', ''december'']
   \<and> includes_str (toLowerCase ''5 January March'') ''march''
   \<and> list_all (\<lambda>m'. \<not> includes_str (toLowerCase ''5 January March'') m')
        [''april'', ''may'', ''june'', ''july'', ''august'', ''september'', ''october'',
         ''november'', ''december'']"
    by code_simp
  have b: "monthKeys = [] @ ''january'' #
       [''february'', ''march'', ''april'', ''may'', ''june'', ''july'', ''august'',
        ''september'', ''october'', ''november'', ''december'']
   \<and> includes_str (toLowerCase ''5 January March'') ''january''"
    by code_simp
  from a have a': "\<exists>before after. monthKeys = before @ ''march'' # after
        \<and> includes_str (toLowerCase ''5 January March'') ''march''
        \<and> (\<forall>m'\<in>set after. \<not> includes_str (toLowerCase ''5 January March'') m')"
    unfolding list_all_iff by blast
  from b have b': "\<exists>before after. monthKeys = before @ ''january'' # after
        \<and> includes_str (toLowerCase ''5 January March'') ''january''
        \<and> (\<forall>m'\<in>set before. \<not> includes_str (toLowerCase ''5 January March'') m')"
    by (metis empty_iff list.set(1))
  have "fst (months_of_parts monthKeys ''5 January March'' ''6 April'' (None, None))
       = Some ''march''"
    using month_tie_break_last_versus_first[of "''5 January March''" "''6 April''" "''march''" "''x''" 0] a' by blast
  moreover have "first_month monthKeys ''5 January March'' = Some ''january''"
    using month_tie_break_last_versus_first[of "''x''" "''y''" "''january''" "''5 January March''" 0] b' by blast
  ultimately show ?thesis using a b by blast
qed

end
